theory Spec2Isabelle
  imports Complex_Main "HOL-Library.Word"
begin

unbundle bit_operations_syntax

section \<open>JavaScript values used by the render nodes\<close>

text \<open>
  The render nodes are JavaScript. The parts of the language that the modelled functions
  rely on are written out here: exceptions, numbers with \<open>NaN\<close> and the infinities,
  \<open>Math.min\<close> and \<open>Math.max\<close>, and property lookup on a plain object literal,
  which also finds the members inherited from \<open>Object.prototype\<close>.
\<close>

datatype js_error = TypeError | Error string

text \<open>
  A JavaScript number that is compared but never computed with: \<open>NaN\<close>, the two
  infinities, or a finite value. Every finite double is a real number, and comparison,
  \<open>Math.min\<close> and \<open>Math.max\<close> return one of their arguments without rounding.
  The sign of zero is not represented.
\<close>

datatype jsnum = NaN | NegInf | Fin real | PosInf

fun jsnum_less :: "jsnum \<Rightarrow> jsnum \<Rightarrow> bool" where
  "jsnum_less NaN b = False"
| "jsnum_less a NaN = False"
| "jsnum_less NegInf NegInf = False"
| "jsnum_less NegInf b = True"
| "jsnum_less (Fin x) (Fin y) = (x < y)"
| "jsnum_less (Fin x) PosInf = True"
| "jsnum_less (Fin x) NegInf = False"
| "jsnum_less PosInf b = False"

definition jsnum_le :: "jsnum \<Rightarrow> jsnum \<Rightarrow> bool" where
  "jsnum_le a b = (a \<noteq> NaN \<and> b \<noteq> NaN \<and> \<not> jsnum_less b a)"

datatype jsval = Undefined | Number jsnum

fun ToNumber :: "jsval \<Rightarrow> jsnum" where
  "ToNumber Undefined = NaN"
| "ToNumber (Number x) = x"

definition Math_min :: "jsval \<Rightarrow> jsval \<Rightarrow> jsnum" where
  "Math_min a b =
     (let x = ToNumber a; y = ToNumber b
      in if x = NaN \<or> y = NaN then NaN else if jsnum_less y x then y else x)"

definition Math_max :: "jsval \<Rightarrow> jsval \<Rightarrow> jsnum" where
  "Math_max a b =
     (let x = ToNumber a; y = ToNumber b
      in if x = NaN \<or> y = NaN then NaN else if jsnum_less x y then y else x)"

text \<open>
  The names every object literal \<open>{}\<close> inherits from \<open>Object.prototype\<close>. Each of
  them is bound to a function or an object, so reading one of them from an object that
  has no own property of that name gives a truthy value.
\<close>

definition object_prototype_names :: "string list" where
  "object_prototype_names =
     [''constructor'', ''hasOwnProperty'', ''isPrototypeOf'', ''propertyIsEnumerable'',
      ''toLocaleString'', ''toString'', ''valueOf'', ''__proto__'',
      ''__defineGetter__'', ''__defineSetter__'', ''__lookupGetter__'',
      ''__lookupSetter__'']"

datatype 'v js_prop = Own 'v | Inherited | Missing

text \<open>
  \<open>obj[name]\<close> on an object literal whose own properties are the association list
  \<open>props\<close> (in insertion order) and whose values are objects or functions.
\<close>

definition js_get :: "(string \<times> 'v) list \<Rightarrow> string \<Rightarrow> 'v js_prop" where
  "js_get props name =
     (case map_of props name of
        Some v \<Rightarrow> Own v
      | None \<Rightarrow> if name \<in> set object_prototype_names then Inherited else Missing)"

fun truthy :: "'v js_prop \<Rightarrow> bool" where
  "truthy (Own v) = True"
| "truthy Inherited = True"
| "truthy Missing = False"

text \<open>\<open>obj[name] = v\<close> for a name that is not inherited: an own property is replaced or added.\<close>

definition js_set :: "(string \<times> 'v) list \<Rightarrow> string \<Rightarrow> 'v \<Rightarrow> (string \<times> 'v) list" where
  "js_set props name v =
     (if name \<in> fst ` set props then map (\<lambda>(k, x). if k = name then (k, v) else (k, x)) props
      else props @ [(name, v)])"

section \<open>Element indices of a quad batch\<close>

text \<open>
  \<open>BatchHandlerPointLight._generateElementIndices\<close>. The indices live in a
  \<open>Uint16Array\<close> over a fresh buffer of \<open>instances * 6 * 2\<close> bytes, so the array
  has \<open>instances * 6\<close> elements, all zero at first; a store converts the number to 16 bits
  (modulo \<open>2 ^ 16\<close>), and a store beyond the end of a typed array is ignored, as
  \<open>xs[i := v]\<close> is. The function returns the buffer; the model returns its 16-bit view.
\<close>

type_synonym uint16 = "16 word"

function generateElementIndices_loop ::
  "nat \<Rightarrow> nat \<Rightarrow> nat \<Rightarrow> uint16 list \<Rightarrow> uint16 list" where
  "generateElementIndices_loop i instances offset indices =
     (if i < instances then
        (let index = i * 4;
             indices = indices[offset := of_nat index];
             indices = indices[offset + 1 := of_nat index];
             indices = indices[offset + 2 := of_nat (index + 1)];
             indices = indices[offset + 3 := of_nat (index + 2)];
             indices = indices[offset + 4 := of_nat (index + 3)];
             indices = indices[offset + 5 := of_nat (index + 3)]
         in generateElementIndices_loop (i + 1) instances (offset + 6) indices)
      else indices)"
  by pat_completeness auto
termination
  by (relation "measure (\<lambda>(i, instances, offset, indices). instances - i)") auto

declare generateElementIndices_loop.simps [simp del]

definition generateElementIndices :: "nat \<Rightarrow> uint16 list" where
  "generateElementIndices instances =
     generateElementIndices_loop 0 instances 0 (replicate (instances * 6) 0)"

text \<open>The pattern of the specification for quad \<open>i\<close>, as numbers.\<close>

definition quad_pattern :: "nat \<Rightarrow> nat list" where
  "quad_pattern i = [4 * i, 4 * i, 4 * i + 1, 4 * i + 2, 4 * i + 3, 4 * i + 3]"

text \<open>The six stored indices of quad \<open>i\<close>, read back as numbers.\<close>

definition quad_indices :: "uint16 list \<Rightarrow> nat \<Rightarrow> nat list" where
  "quad_indices indices i = map unat (take 6 (drop (6 * i) indices))"

section \<open>The render node manager\<close>

text \<open>
  Nodes are objects compared by identity. A node is either handed to the manager from
  outside, or it is the \<open>n\<close>-th node the manager built itself with \<open>new\<close>; the two
  kinds never coincide. A constructor is one of the built-in classes, named as in the
  constructor table, or a class supplied by the caller.
\<close>

datatype node_ref = Given nat | Built nat

datatype ctor_ref = Builtin string | Custom nat

text \<open>
  The value of an optional or nullable drawing context argument or field:
  \<open>null\<close>, \<open>undefined\<close> (the argument was left out), or a drawing context object.
\<close>

datatype 'c ctx_ref = CtxNull | CtxUndefined | CtxObj 'c

text \<open>The renderer event the manager emits, \<open>Events.SET_PARALLEL_TEXTURE_UNITS\<close>.\<close>

datatype event_name = SET_PARALLEL_TEXTURE_UNITS

text \<open>
  A node of the debug graph, \<open>{name, children, parent}\<close>. Children are only ever
  appended and never removed, so a node is addressed by the child positions on the way
  from the root, and its parent is the node addressed by the path without its last step;
  the root has no parent: it is created while \<open>currentDebugNode\<close> is \<open>null\<close>, since
  \<open>debugGraph\<close> and \<open>currentDebugNode\<close> are only ever reset together.
\<close>

datatype dnode = DNode (dn_name: string) (dn_children: "dnode list")

text \<open>
  The fields of \<open>RenderNodeManager\<close> (\<open>_nodes\<close> and \<open>_nodeConstructors\<close> without the
  underscore), each table as the own properties of its object literal. The last four
  fields record what the manager does to its collaborators: the events it emits with
  their argument, the debug flag it has set on each node with \<open>node.setDebug\<close>, the nodes it
  has built and from which constructor, and the number of one-shot post-render listeners
  it has registered with the renderer.
\<close>

record 'c manager =
  renderer_maxTextures :: jsnum
  maxParallelTextureUnits :: jsnum
  nodes :: "(string \<times> node_ref) list"
  nodeConstructors :: "(string \<times> ctor_ref) list"
  currentBatchNode :: "node_ref option"
  currentBatchDrawingContext :: "'c ctx_ref"
  debug :: bool
  debugGraph :: "dnode option"
  currentDebugNode :: "nat list option"
  emitted :: "(event_name \<times> jsnum) list"
  nodeDebug :: "node_ref \<Rightarrow> bool"
  constructed :: "(node_ref \<times> ctor_ref) list"
  postRenderOnce :: nat

definition builtin_names :: "string list" where
  "builtin_names =
     [''BatchHandlerPointLight'', ''BatchHandlerQuad'', ''BatchHandlerQuadLight'',
      ''BatchHandlerQuadLightShadow'', ''BatchHandlerStrip'', ''BatchHandlerTileSprite'',
      ''BatchHandlerTileSpriteLight'', ''BatchHandlerTileSpriteLightShadow'',
      ''BatchHandlerTriFlat'', ''BatchHandlerTriFlatLight'', ''Camera'', ''DrawLine'',
      ''FillCamera'', ''FillPath'', ''FillRect'', ''FillTri'', ''ListCompositor'',
      ''RebindContext'', ''StrokePath'', ''SubmitterQuad'', ''SubmitterQuadLight'',
      ''SubmitterTileSprite'', ''SubmitterTileSpriteLight'', ''TexturerImage'',
      ''TexturerTileSprite'', ''TransformerImage'', ''TransformerTile'',
      ''TransformerTileSprite'', ''YieldContext'']"

text \<open>
  The constructor: \<open>maxTextures\<close> is \<open>renderer.maxTextures\<close>, and the three flags are
  \<open>game.config.autoMobilePipeline\<close>, \<open>game.device.os.desktop\<close> and
  \<open>game.config.selfShadow\<close>.
\<close>

definition initialize :: "jsnum \<Rightarrow> bool \<Rightarrow> bool \<Rightarrow> bool \<Rightarrow> 'c manager" where
  "initialize maxTextures autoMobilePipeline desktop selfShadow =
     \<lparr> renderer_maxTextures = maxTextures,
       maxParallelTextureUnits =
         (if autoMobilePipeline \<and> \<not> desktop then Fin 1 else maxTextures),
       nodes = [],
       nodeConstructors =
         map (\<lambda>k. (k,
                if selfShadow \<and> k = ''BatchHandlerQuadLight''
                then Builtin ''BatchHandlerQuadLightShadow''
                else if selfShadow \<and> k = ''BatchHandlerTileSpriteLight''
                then Builtin ''BatchHandlerTileSpriteLightShadow''
                else Builtin k))
           builtin_names,
       currentBatchNode = None,
       currentBatchDrawingContext = CtxNull,
       debug = False,
       debugGraph = None,
       currentDebugNode = None,
       emitted = [],
       nodeDebug = (\<lambda>n. False),
       constructed = [],
       postRenderOnce = 0 \<rparr>"

definition addNode :: "string \<Rightarrow> node_ref \<Rightarrow> 'c manager \<Rightarrow> js_error + 'c manager" where
  "addNode name node m =
     (if truthy (js_get (nodes m) name)
      then Inl (Error (''node '' @ name @ '' already exists.''))
      else
        (let m = m\<lparr>nodes := js_set (nodes m) name node\<rparr>
         in if debug m then Inr (m\<lparr>nodeDebug := (nodeDebug m)(node := True)\<rparr>) else Inr m))"

definition addNodeConstructor ::
  "string \<Rightarrow> ctor_ref \<Rightarrow> 'c manager \<Rightarrow> js_error + 'c manager" where
  "addNodeConstructor name constructor m =
     (if truthy (js_get (nodeConstructors m) name)
      then Inl (Error (''node constructor '' @ name @ '' already exists.''))
      else Inr (m\<lparr>nodeConstructors := js_set (nodeConstructors m) name constructor\<rparr>))"

text \<open>
  What \<open>getNode\<close> returns: a node, \<open>null\<close>, or the member of \<open>Object.prototype\<close> that
  the lookup in \<open>_nodes\<close> found under the name.
\<close>

datatype got = GotNode node_ref | GotInherited string | GotNull

text \<open>
  \<open>getNode\<close>. The constructor table is read only when \<open>_nodes[name]\<close> is falsy, which
  rules out an inherited name; \<open>new\<close> on an inherited member is therefore never reached
  and stands as a \<open>TypeError\<close>.
\<close>

definition getNode :: "string \<Rightarrow> 'c manager \<Rightarrow> js_error + got \<times> 'c manager" where
  "getNode name m =
     (case js_get (nodes m) name of
        Own n \<Rightarrow> Inr (GotNode n, m)
      | Inherited \<Rightarrow> Inr (GotInherited name, m)
      | Missing \<Rightarrow>
          (case js_get (nodeConstructors m) name of
             Own c \<Rightarrow>
               (let node = Built (length (constructed m));
                    m = m\<lparr>constructed := constructed m @ [(node, c)]\<rparr>
                in case addNode name node m of
                     Inl e \<Rightarrow> Inl e
                   | Inr m' \<Rightarrow> Inr (GotNode node, m'))
           | Inherited \<Rightarrow> Inl TypeError
           | Missing \<Rightarrow> Inr (GotNull, m)))"

definition hasNode :: "string \<Rightarrow> bool \<Rightarrow> 'c manager \<Rightarrow> bool" where
  "hasNode name constructed_only m =
     (truthy (js_get (nodes m) name) \<or>
      (\<not> constructed_only \<and> truthy (js_get (nodeConstructors m) name)))"

definition setMaxParallelTextureUnits :: "jsval \<Rightarrow> 'c manager \<Rightarrow> 'c manager" where
  "setMaxParallelTextureUnits v m =
     (let m = m\<lparr>maxParallelTextureUnits :=
                 Math_max (Number (Fin 1))
                   (Number (Math_min v (Number (renderer_maxTextures m))))\<rparr>
      in m\<lparr>emitted := emitted m @ [(SET_PARALLEL_TEXTURE_UNITS, maxParallelTextureUnits m)]\<rparr>)"

text \<open>
  The clamp of the specification: a value below the range becomes its lower end, a value
  above it its upper end, and a value inside it stays.
\<close>

definition clamp_spec :: "jsnum \<Rightarrow> jsnum \<Rightarrow> jsnum \<Rightarrow> jsnum" where
  "clamp_spec lo hi v = (if jsnum_less v lo then lo else if jsnum_less hi v then hi else v)"

subsection \<open>The debug graph\<close>

fun node_at :: "dnode \<Rightarrow> nat list \<Rightarrow> dnode option" where
  "node_at g [] = Some g"
| "node_at g (i # p) =
     (if i < length (dn_children g) then node_at (dn_children g ! i) p else None)"

text \<open>\<open>children.push(node)\<close> on the node addressed by the path.\<close>

fun push_child :: "dnode \<Rightarrow> nat list \<Rightarrow> dnode \<Rightarrow> dnode" where
  "push_child (DNode nm cs) [] node = DNode nm (cs @ [node])"
| "push_child (DNode nm cs) (i # p) node =
     (if i < length cs then DNode nm (cs[i := push_child (cs ! i) p node]) else DNode nm cs)"

definition pushDebug :: "string \<Rightarrow> 'c manager \<Rightarrow> js_error + 'c manager" where
  "pushDebug name m =
     (if \<not> debug m then Inr m
      else
        (case debugGraph m of
           Some g \<Rightarrow>
             (case currentDebugNode m of
                None \<Rightarrow> Inl TypeError
              | Some p \<Rightarrow>
                  (case node_at g p of
                     None \<Rightarrow> Inl TypeError
                   | Some cur \<Rightarrow>
                       Inr (m\<lparr>debugGraph := Some (push_child g p (DNode name [])),
                              currentDebugNode := Some (p @ [length (dn_children cur)])\<rparr>)))
         | None \<Rightarrow>
             Inr (m\<lparr>debugGraph := Some (DNode name []), currentDebugNode := Some []\<rparr>)))"

definition popDebug :: "'c manager \<Rightarrow> js_error + 'c manager" where
  "popDebug m =
     (if \<not> debug m then Inr m
      else
        (case currentDebugNode m of
           None \<Rightarrow> Inl TypeError
         | Some p \<Rightarrow>
             (if p \<noteq> [] then Inr (m\<lparr>currentDebugNode := Some (butlast p)\<rparr>)
              else Inr (m\<lparr>currentDebugNode := None\<rparr>))))"

text \<open>
  \<open>setDebug\<close>: every node of \<open>_nodes\<close> gets the flag; switching debugging on also
  drops the old graph, pushes the synthetic root and registers the one-shot listener
  that switches debugging off after the frame.
\<close>

definition setDebug :: "bool \<Rightarrow> 'c manager \<Rightarrow> js_error + 'c manager" where
  "setDebug v m =
     (let m = m\<lparr>debug := v\<rparr>;
          m = m\<lparr>nodeDebug := (\<lambda>n. if n \<in> snd ` set (nodes m) then v else nodeDebug m n)\<rparr>
      in if v then
           (let m = m\<lparr>debugGraph := None, currentDebugNode := None\<rparr>
            in case pushDebug ''[Render Tree Root]'' m of
                 Inl e \<Rightarrow> Inl e
               | Inr m' \<Rightarrow> Inr (m'\<lparr>postRenderOnce := postRenderOnce m' + 1\<rparr>))
         else Inr m)"

definition indentString :: "nat \<Rightarrow> string" where
  "indentString indent = concat (replicate indent ''  '')"

text \<open>
  \<open>formatNode\<close> with its loop over the children; \<open>formatChildren\<close> is the loop, from the
  child it is about to format, appending to \<open>str\<close>.
\<close>

fun formatNode :: "dnode \<Rightarrow> nat \<Rightarrow> string"
  and formatChildren :: "dnode list \<Rightarrow> nat \<Rightarrow> string \<Rightarrow> string" where
  "formatNode (DNode nm cs) indent =
     formatChildren cs indent (indentString indent @ nm @ [CHR 0x0A])"
| "formatChildren [] indent str = str"
| "formatChildren (c # cs) indent str =
     formatChildren cs indent (str @ formatNode c (indent + 1))"

text \<open>
  \<open>debugToString\<close>: with \<open>debugGraph\<close> still \<open>null\<close>, \<open>formatNode\<close> reads
  \<open>node.name\<close> of \<open>null\<close>, which throws a \<open>TypeError\<close>.
\<close>

definition debugToString :: "'c manager \<Rightarrow> js_error + string" where
  "debugToString m =
     (case debugGraph m of
        None \<Rightarrow> Inl TypeError
      | Some node \<Rightarrow> Inr (formatNode node 0))"

text \<open>
  The layout the specification describes: one line per node, indented by two spaces per
  level of nesting, a node's line followed by the lines of its children in order.
\<close>

fun tree_lines :: "nat \<Rightarrow> dnode \<Rightarrow> string list" where
  "tree_lines depth (DNode nm cs) =
     (replicate (2 * depth) CHR '' '' @ nm) # concat (map (tree_lines (depth + 1)) cs)"

definition unlines :: "string list \<Rightarrow> string" where
  "unlines ls = concat (map (\<lambda>l. l @ [CHR 0x0A]) ls)"

section \<open>The point light batch handler\<close>

text \<open>
  The numbers of the vertex data are floating point values. Their type is left open, and
  the operations on them are parameters: the product and the difference of two numbers,
  and the conversion a \<open>Float32Array\<close> store makes.
\<close>

record 'f float_ops =
  fmul :: "'f \<Rightarrow> 'f \<Rightarrow> 'f"
  fsub :: "'f \<Rightarrow> 'f \<Rightarrow> 'f"
  fround :: "'f \<Rightarrow> 'f"

text \<open>What the nodes read of a camera, a drawing context and a point light.\<close>

record 'f camera =
  cam_alpha :: 'f
  cam_zoom :: 'f

record 'f drawing_context =
  ctx_camera :: "'f camera"
  ctx_width :: 'f
  ctx_height :: 'f

record 'f light =
  light_r :: 'f
  light_g :: 'f
  light_b :: 'f
  light_intensity :: 'f
  light_radius :: 'f
  light_attenuation :: 'f
  light_alpha :: 'f

text \<open>
  The fields of a batch handler that \<open>run\<close> and \<open>batch\<close> use. They are set by the
  base class \<open>BatchHandler\<close>; \<open>viewF32\<close> is the \<open>Float32Array\<close> view of the vertex
  buffer.
\<close>

record 'f batch_handler =
  instanceCount :: nat
  instancesPerBatch :: nat
  floatsPerInstance :: nat
  bytesPerInstance :: nat
  indicesPerInstance :: nat
  viewF32 :: "'f list"

text \<open>
  The calls a handler makes on the shader program, the vertex buffer and the renderer,
  each with the handler that made it, and the call of the hook \<open>onRunEnd\<close> of the base
  class.
\<close>

datatype 'f uniform = UFloat 'f | UVec2 'f 'f | UProjectionMatrix 'f 'f

datatype 'f gpu_event =
    SetUniform node_ref string "'f uniform"
  | SetProjectionMatrix 'f 'f
  | BufferUpdate node_ref nat
  | DrawElements node_ref "'f drawing_context" nat nat
  | OnRunEnd node_ref "'f drawing_context"

text \<open>
  The manager together with the batch handlers it drives, each node reference denoting
  one handler object. \<open>calls\<close> lists every call of a handler's \<open>run\<close> with its argument,
  and \<open>gpu\<close> every call listed above, both in the order they were made.
\<close>

record 'f world =
  mgr :: "'f drawing_context manager"
  handlers :: "node_ref \<Rightarrow> 'f batch_handler"
  calls :: "(node_ref \<times> 'f drawing_context ctx_ref) list"
  gpu :: "'f gpu_event list"

text \<open>A call either returns or throws, and leaves a state behind in both cases.\<close>

datatype 's outcome = Ok 's | Threw js_error 's

fun state_of :: "'s outcome \<Rightarrow> 's" where
  "state_of (Ok s) = s"
| "state_of (Threw e s) = s"

fun returned :: "'s outcome \<Rightarrow> bool" where
  "returned (Ok s) = True"
| "returned (Threw e s) = False"

definition onRunBegin :: "node_ref \<Rightarrow> 'f drawing_context \<Rightarrow> 'f world \<Rightarrow> 'f world" where
  "onRunBegin self drawingContext w =
     w\<lparr>gpu := gpu w @
        [SetUniform self ''uCameraZoom'' (UFloat (cam_zoom (ctx_camera drawingContext))),
         SetUniform self ''uResolution''
           (UVec2 (ctx_width drawingContext) (ctx_height drawingContext)),
         SetProjectionMatrix (ctx_width drawingContext) (ctx_height drawingContext),
         SetUniform self ''uProjectionMatrix''
           (UProjectionMatrix (ctx_width drawingContext) (ctx_height drawingContext))]\<rparr>"

text \<open>
  \<open>run\<close>. With nothing batched it returns before it touches its argument; otherwise
  \<open>onRunBegin\<close> reads \<open>drawingContext.camera\<close>, which throws a \<open>TypeError\<close> when the
  argument is \<open>null\<close> or \<open>undefined\<close>.
\<close>

definition run ::
  "node_ref \<Rightarrow> 'f drawing_context ctx_ref \<Rightarrow> 'f world \<Rightarrow> 'f world outcome" where
  "run self drawingContext w =
     (let w = w\<lparr>calls := calls w @ [(self, drawingContext)]\<rparr>;
          count = instanceCount (handlers w self)
      in if count = 0 then Ok w
         else
           (case drawingContext of
              CtxObj c \<Rightarrow>
                (let w = onRunBegin self c w;
                     h = handlers w self;
                     w = w\<lparr>gpu := gpu w @ [BufferUpdate self (instanceCount h * bytesPerInstance h)]\<rparr>;
                     w = w\<lparr>gpu := gpu w @ [DrawElements self c (count * indicesPerInstance h) 0]\<rparr>;
                     w = w\<lparr>handlers := (handlers w)(self := h\<lparr>instanceCount := 0\<rparr>)\<rparr>;
                     w = w\<lparr>gpu := gpu w @ [OnRunEnd self c]\<rparr>
                 in Ok w)
            | CtxNull \<Rightarrow> Threw TypeError w
            | CtxUndefined \<Rightarrow> Threw TypeError w))"

definition setCurrentBatchNode ::
  "node_ref option \<Rightarrow> 'f drawing_context ctx_ref \<Rightarrow> 'f world \<Rightarrow> 'f world outcome" where
  "setCurrentBatchNode node drawingContext w =
     (if currentBatchNode (mgr w) \<noteq> node then
        (case (case currentBatchNode (mgr w) of
                 None \<Rightarrow> Ok w
               | Some cur \<Rightarrow> run cur (currentBatchDrawingContext (mgr w)) w) of
           Threw e w' \<Rightarrow> Threw e w'
         | Ok w' \<Rightarrow>
             Ok (w'\<lparr>mgr := (mgr w')\<lparr>currentBatchNode := node,
                    currentBatchDrawingContext :=
                      (if node \<noteq> None then drawingContext else CtxNull)\<rparr>\<rparr>))
      else Ok w)"

definition startStandAloneRender :: "'f world \<Rightarrow> 'f world outcome" where
  "startStandAloneRender w = setCurrentBatchNode None CtxUndefined w"

text \<open>\<open>view[offset++] = v\<close> for each \<open>v\<close> of a list, in order.\<close>

fun write_floats :: "('f \<Rightarrow> 'f) \<Rightarrow> 'f list \<Rightarrow> nat \<Rightarrow> 'f list \<Rightarrow> 'f list" where
  "write_floats rnd view offset [] = view"
| "write_floats rnd view offset (v # vs) = write_floats rnd (view[offset := rnd v]) (offset + 1) vs"

text \<open>The forty numbers \<open>batch\<close> writes for one light, in the order it writes them.\<close>

definition light_vertices ::
  "'f float_ops \<Rightarrow> 'f drawing_context \<Rightarrow> 'f light \<Rightarrow>
   'f \<Rightarrow> 'f \<Rightarrow> 'f \<Rightarrow> 'f \<Rightarrow> 'f \<Rightarrow> 'f \<Rightarrow> 'f \<Rightarrow> 'f \<Rightarrow> 'f \<Rightarrow> 'f \<Rightarrow> 'f list" where
  "light_vertices ops drawingContext light xTL yTL xBL yBL xTR yTR xBR yBR lightX lightY =
     (let intensity = light_intensity light;
          radius = light_radius light;
          attenuation = light_attenuation light;
          r = fmul ops (light_r light) intensity;
          g = fmul ops (light_g light) intensity;
          b = fmul ops (light_b light) intensity;
          a = fmul ops (cam_alpha (ctx_camera drawingContext)) (light_alpha light)
      in [xBL, yBL, lightX, lightY, radius, attenuation, r, g, b, a,
          xTL, yTL, lightX, lightY, radius, attenuation, r, g, b, a,
          xBR, yBR, lightX, lightY, radius, attenuation, r, g, b, a,
          xTR, yTR, lightX, lightY, radius, attenuation, r, g, b, a])"

definition batch ::
  "'f float_ops \<Rightarrow> node_ref \<Rightarrow> 'f drawing_context \<Rightarrow> 'f light \<Rightarrow>
   'f \<Rightarrow> 'f \<Rightarrow> 'f \<Rightarrow> 'f \<Rightarrow> 'f \<Rightarrow> 'f \<Rightarrow> 'f \<Rightarrow> 'f \<Rightarrow> 'f \<Rightarrow> 'f \<Rightarrow>
   'f world \<Rightarrow> 'f world outcome" where
  "batch ops self drawingContext light xTL yTL xBL yBL xTR yTR xBR yBR lightX lightY w =
     (case (if instanceCount (handlers w self) = 0
            then setCurrentBatchNode (Some self) (CtxObj drawingContext) w
            else Ok w) of
        Threw e w' \<Rightarrow> Threw e w'
      | Ok w' \<Rightarrow>
          (let h = handlers w' self;
               vertexOffset32 = instanceCount h * floatsPerInstance h;
               h = h\<lparr>viewF32 := write_floats (fround ops) (viewF32 h) vertexOffset32
                     (light_vertices ops drawingContext light
                        xTL yTL xBL yBL xTR yTR xBR yBR lightX lightY)\<rparr>;
               h = h\<lparr>instanceCount := instanceCount h + 1\<rparr>;
               w' = w'\<lparr>handlers := (handlers w')(self := h)\<rparr>
           in if instanceCount h = instancesPerBatch h
              then run self (CtxObj drawingContext) w'
              else Ok w'))"

text \<open>
  The handler as \<open>batch\<close> leaves it after it has written one light and counted it.
\<close>

definition add_instance ::
  "'f float_ops \<Rightarrow> 'f batch_handler \<Rightarrow> 'f drawing_context \<Rightarrow> 'f light \<Rightarrow>
   'f \<Rightarrow> 'f \<Rightarrow> 'f \<Rightarrow> 'f \<Rightarrow> 'f \<Rightarrow> 'f \<Rightarrow> 'f \<Rightarrow> 'f \<Rightarrow> 'f \<Rightarrow> 'f \<Rightarrow> 'f batch_handler" where
  "add_instance ops h drawingContext light xTL yTL xBL yBL xTR yTR xBR yBR lightX lightY =
     h\<lparr>viewF32 := write_floats (fround ops) (viewF32 h)
            (instanceCount h * floatsPerInstance h)
            (light_vertices ops drawingContext light
               xTL yTL xBL yBL xTR yTR xBR yBR lightX lightY),
       instanceCount := instanceCount h + 1\<rparr>"

text \<open>
  What the base class fixes for a handler: its capacity in instances, the sizes of an
  instance, and the length of the vertex buffer view.
\<close>

definition handler_config :: "'f batch_handler \<Rightarrow> nat \<times> nat \<times> nat \<times> nat \<times> nat" where
  "handler_config h =
     (instancesPerBatch h, floatsPerInstance h, bytesPerInstance h, indicesPerInstance h,
      length (viewF32 h))"

text \<open>
  A call of one handler from outside: \<open>batch\<close> with its arguments, or \<open>run\<close>; and a
  sequence of such calls, which ends at the first one that throws.
\<close>

datatype 'f handler_call =
    BatchCall "'f drawing_context" "'f light" 'f 'f 'f 'f 'f 'f 'f 'f 'f 'f
  | RunCall "'f drawing_context ctx_ref"

fun do_call ::
  "'f float_ops \<Rightarrow> node_ref \<Rightarrow> 'f handler_call \<Rightarrow> 'f world \<Rightarrow> 'f world outcome" where
  "do_call ops self (BatchCall c l xTL yTL xBL yBL xTR yTR xBR yBR lightX lightY) w =
     batch ops self c l xTL yTL xBL yBL xTR yTR xBR yBR lightX lightY w"
| "do_call ops self (RunCall c) w = run self c w"

fun do_calls ::
  "'f float_ops \<Rightarrow> node_ref \<Rightarrow> 'f handler_call list \<Rightarrow> 'f world \<Rightarrow> 'f world outcome" where
  "do_calls ops self [] w = Ok w"
| "do_calls ops self (c # cs) w =
     (case do_call ops self c w of
        Threw e w' \<Rightarrow> Threw e w'
      | Ok w' \<Rightarrow> do_calls ops self cs w')"

fun is_batch_call :: "'f handler_call \<Rightarrow> bool" where
  "is_batch_call (BatchCall c l xTL yTL xBL yBL xTR yTR xBR yBR lightX lightY) = True"
| "is_batch_call (RunCall c) = False"

text \<open>The draw calls a handler has issued, each with its drawing context and index count.\<close>

fun draws_of :: "node_ref \<Rightarrow> 'f gpu_event list \<Rightarrow> ('f drawing_context \<times> nat) list" where
  "draws_of self [] = []"
| "draws_of self (DrawElements n c k off # es) =
     (if n = self then (c, k) # draws_of self es else draws_of self es)"
| "draws_of self (e # es) = draws_of self es"

text \<open>
  What one flush of a non-empty batch does on the program, the buffer and the renderer:
  the four calls of \<open>onRunBegin\<close>, the buffer update, the draw call and \<open>onRunEnd\<close>.
\<close>

definition flush_events ::
  "node_ref \<Rightarrow> 'f drawing_context \<Rightarrow> 'f batch_handler \<Rightarrow> 'f gpu_event list" where
  "flush_events self c h =
     [SetUniform self ''uCameraZoom'' (UFloat (cam_zoom (ctx_camera c))),
      SetUniform self ''uResolution'' (UVec2 (ctx_width c) (ctx_height c)),
      SetProjectionMatrix (ctx_width c) (ctx_height c),
      SetUniform self ''uProjectionMatrix'' (UProjectionMatrix (ctx_width c) (ctx_height c)),
      BufferUpdate self (instanceCount h * bytesPerInstance h),
      DrawElements self c (instanceCount h * indicesPerInstance h) 0,
      OnRunEnd self c]"

text \<open>The arguments of the calls of a handler's \<open>run\<close>, in order.\<close>

definition runs_of :: "node_ref \<Rightarrow> (node_ref \<times> 'c) list \<Rightarrow> 'c list" where
  "runs_of self cs = map snd (filter (\<lambda>(n, c). n = self) cs)"

text \<open>
  The batch pending in the manager can be flushed: there is none, or it is empty, or its
  stored drawing context is an object.
\<close>

definition flushable :: "'f world \<Rightarrow> bool" where
  "flushable w =
     (case currentBatchNode (mgr w) of
        None \<Rightarrow> True
      | Some cur \<Rightarrow>
          instanceCount (handlers w cur) = 0 \<or>
          (case currentBatchDrawingContext (mgr w) of CtxObj c \<Rightarrow> True | _ \<Rightarrow> False))"

text \<open>
  A point light handler as it is after construction with room for \<open>n\<close> instances: empty,
  with the sizes that follow from \<open>defaultConfig\<close> (four vertices of ten floats and six
  indices per instance) and a zeroed buffer; and a manager after construction with every
  node reference denoting such a handler.
\<close>

definition new_handler :: "nat \<Rightarrow> 'f \<Rightarrow> 'f batch_handler" where
  "new_handler n zero =
     \<lparr> instanceCount = 0,
       instancesPerBatch = n,
       floatsPerInstance = 40,
       bytesPerInstance = 160,
       indicesPerInstance = 6,
       viewF32 = replicate (n * 40) zero \<rparr>"

definition new_world :: "jsnum \<Rightarrow> nat \<Rightarrow> 'f \<Rightarrow> 'f world" where
  "new_world maxTextures n zero =
     \<lparr> mgr = initialize maxTextures False True False,
       handlers = (\<lambda>r. new_handler n zero),
       calls = [],
       gpu = [] \<rparr>"

text \<open>Two drawing contexts of different size, a light and exact arithmetic for the examples.\<close>

definition context_of_width :: "int \<Rightarrow> int drawing_context" where
  "context_of_width wd =
     \<lparr> ctx_camera = \<lparr> cam_alpha = 1, cam_zoom = 1 \<rparr>, ctx_width = wd, ctx_height = 600 \<rparr>"

definition white_light :: "int light" where
  "white_light =
     \<lparr> light_r = 1, light_g = 1, light_b = 1, light_intensity = 1, light_radius = 1,
       light_attenuation = 1, light_alpha = 1 \<rparr>"

definition int_ops :: "int float_ops" where
  "int_ops = \<lparr> fmul = (\<lambda>a b. a * b), fsub = (\<lambda>a b. a - b), fround = (\<lambda>a. a) \<rparr>"

text \<open>
  The new manager after one \<open>batch\<close> call on a handler with room for two lights: the
  handler is the current batch node, with one light pending.
\<close>

definition mid_batch :: "int world" where
  "mid_batch = state_of (batch int_ops (Given 0) (context_of_width 800) white_light
      0 0 0 0 0 0 0 0 0 0 (new_world (Fin 16) 2 0))"

section \<open>The tile submitter\<close>

text \<open>
  \<open>SubmitterTile.run\<close> computes the arguments of one \<open>batch\<close> call and makes the call
  on the batch handler of the game object. The model returns the handler and the
  arguments. Textures, elements, parent matrices and render options are opaque handles.
  The hooks \<open>onRunBegin\<close> and \<open>onRunEnd\<close> of the base class take no part in the
  arguments and are left out.

  A texturer, transformer or tinter is passed either as a node, whose \<open>run\<close> computes its
  fields from the arguments of the call, or as a plain object that only has the fields.
\<close>

record 'f game_object =
  go_tintFill :: bool
  customRenderNodes :: "string \<Rightarrow> node_ref option"
  defaultRenderNodes :: "string \<Rightarrow> node_ref option"

record 'f texturer_fields =
  frame_source_glTexture :: nat
  uv_u0 :: 'f
  uv_v0 :: 'f
  uv_u1 :: 'f
  uv_v1 :: 'f

record 'f texturer_node =
  texturer_run ::
    "('f drawing_context \<Rightarrow> 'f game_object \<Rightarrow> nat option \<Rightarrow> 'f texturer_fields) option"
  texturer_fields :: "'f texturer_fields"

datatype 'f quad = Quad 'f 'f 'f 'f 'f 'f 'f 'f

record 'f transformer_node =
  transformer_run ::
    "('f drawing_context \<Rightarrow> 'f game_object \<Rightarrow> nat option \<Rightarrow> nat option \<Rightarrow>
      'f texturer_fields \<Rightarrow> 'f quad) option"
  transformer_quad :: "'f quad"

record tinter_fields =
  tintFill :: bool
  tintTopLeft :: "32 word"
  tintBottomLeft :: "32 word"
  tintTopRight :: "32 word"
  tintBottomRight :: "32 word"

record 'f tinter_node =
  tinter_run ::
    "('f drawing_context \<Rightarrow> 'f game_object \<Rightarrow> nat option \<Rightarrow> tinter_fields) option"
  tinter_fields :: tinter_fields

text \<open>
  What the submitter takes from outside this file: the conversion of a float alpha to
  the byte that stands for it in a tint, the key \<open>this.batchHandler\<close> of its
  configuration, and \<open>setRenderOptions\<close> of \<open>SubmitterQuad\<close>, which fills
  \<open>this._renderOptions\<close> from the game object, the normal map and its rotation.
\<close>

record 'f submitter_env =
  alphaByte :: "'f \<Rightarrow> 8 word"
  batchHandler :: string
  setRenderOptions :: "'f game_object \<Rightarrow> nat option \<Rightarrow> 'f option \<Rightarrow> nat"

text \<open>
  Modelled from the spec: \<open>Utils.getTintAppendFloatAlpha\<close> is not among the sources. A
  tint is the packed 32-bit value of colour and alpha of the specification. The function
  appends the alpha to the colour \<open>rgb\<close>: it shifts the byte of the alpha above the 24
  bits of the colour and joins it to \<open>rgb\<close> with a bitwise or, which leaves every bit
  that is set in \<open>rgb\<close> set. The conversion of the float alpha to its byte is the
  parameter \<open>toByte\<close>.
\<close>

definition getTintAppendFloatAlpha :: "('f \<Rightarrow> 8 word) \<Rightarrow> 32 word \<Rightarrow> 'f \<Rightarrow> 32 word" where
  "getTintAppendFloatAlpha toByte rgb a =
     (let ua = ucast (toByte a) :: 32 word in push_bit 24 ua OR rgb)"

text \<open>The name the submitter gives the function: \<open>var getTint = Utils.getTintAppendFloatAlpha\<close>.\<close>

definition getTint :: "'f submitter_env \<Rightarrow> 32 word \<Rightarrow> 'f \<Rightarrow> 32 word" where
  "getTint env = getTintAppendFloatAlpha (alphaByte env)"

text \<open>The arguments of the \<open>batch\<close> call, in the order of the call.\<close>

record 'f tile_batch =
  tb_drawingContext :: "'f drawing_context"
  tb_glTexture :: nat
  tb_quad :: "'f list"
  tb_texture_box :: "'f list"
  tb_frame_uv :: "'f list"
  tb_tintFill :: bool
  tb_tintTopLeft :: "32 word"
  tb_tintBottomLeft :: "32 word"
  tb_tintTopRight :: "32 word"
  tb_tintBottomRight :: "32 word"
  tb_renderOptions :: nat

definition SubmitterTile_run ::
  "'f float_ops \<Rightarrow> 'f submitter_env \<Rightarrow> 'f drawing_context \<Rightarrow> 'f game_object \<Rightarrow>
   nat option \<Rightarrow> nat option \<Rightarrow> 'f texturer_node \<Rightarrow> 'f transformer_node \<Rightarrow>
   'f tinter_node option \<Rightarrow> nat option \<Rightarrow> 'f option \<Rightarrow>
   js_error + node_ref \<times> 'f tile_batch" where
  "SubmitterTile_run ops env drawingContext gameObject parentMatrix element
     texturerNode transformerNode tinterNode normalMap normalMapRotation =
     (let cameraAlpha = cam_alpha (ctx_camera drawingContext);
          texturer =
            (case texturer_run texturerNode of
               Some f \<Rightarrow> f drawingContext gameObject element
             | None \<Rightarrow> texturer_fields texturerNode);
          quad =
            (case transformer_run transformerNode of
               Some f \<Rightarrow> f drawingContext gameObject parentMatrix element texturer
             | None \<Rightarrow> transformer_quad transformerNode);
          tints =
            (case tinterNode of
               Some tinter \<Rightarrow>
                 (case tinter_run tinter of
                    Some f \<Rightarrow> f drawingContext gameObject element
                  | None \<Rightarrow> tinter_fields tinter)
             | None \<Rightarrow>
                 (let tint = getTint env 0xffffffff cameraAlpha
                  in \<lparr> tintFill = go_tintFill gameObject,
                       tintTopLeft = tint,
                       tintBottomLeft = tint,
                       tintTopRight = tint,
                       tintBottomRight = tint \<rparr>));
          u0 = uv_u0 texturer;
          v0 = uv_v0 texturer;
          u1 = uv_u1 texturer;
          v1 = uv_v1 texturer;
          renderOptions = setRenderOptions env gameObject normalMap normalMapRotation
      in case (case customRenderNodes gameObject (batchHandler env) of
                 Some h \<Rightarrow> Some h
               | None \<Rightarrow> defaultRenderNodes gameObject (batchHandler env)) of
           None \<Rightarrow> Inl TypeError
         | Some h \<Rightarrow>
             (case quad of
                Quad q0 q1 q2 q3 q4 q5 q6 q7 \<Rightarrow>
                  Inr (h,
                    \<lparr> tb_drawingContext = drawingContext,
                      tb_glTexture = frame_source_glTexture texturer,
                      tb_quad = [q0, q1, q2, q3, q6, q7, q4, q5],
                      tb_texture_box = [u0, v0, fsub ops u1 u0, fsub ops v1 v0],
                      tb_frame_uv = [u0, v0, u0, v1, u1, v0, u1, v1],
                      tb_tintFill = tintFill tints,
                      tb_tintTopLeft = tintTopLeft tints,
                      tb_tintBottomLeft = tintBottomLeft tints,
                      tb_tintTopRight = tintTopRight tints,
                      tb_tintBottomRight = tintBottomRight tints,
                      tb_renderOptions = renderOptions \<rparr>)))"



definition int_submitter_env :: "int submitter_env" where
  "int_submitter_env =
     \<lparr> alphaByte = (\<lambda>a. word_of_int (a * 255)), batchHandler = ''BatchHandler'',
       setRenderOptions = (\<lambda>g n r. 0) \<rparr>"




section \<open>Properties of the element indices\<close>

lemma generateElementIndices_loop_length:
  "length (generateElementIndices_loop i n off xs) = length xs"
  by (induction i n off xs rule: generateElementIndices_loop.induct)
     (subst generateElementIndices_loop.simps, simp add: Let_def)

lemma six_update:
  assumes "off + 6 \<le> length xs"
  shows "xs[off := a, off + 1 := b, off + 2 := c, off + 3 := d, off + 4 := e, off + 5 := f]
         = take off xs @ [a, b, c, d, e, f] @ drop (off + 6) xs"
  using assms
  by (intro nth_equalityI) (auto simp: nth_append nth_list_update less_Suc_eq_0_disj nth_Cons')

lemma generateElementIndices_loop_eq:
  "length xs = 6 * n \<Longrightarrow> i \<le> n \<Longrightarrow> off = 6 * i \<Longrightarrow>
   generateElementIndices_loop i n off xs =
     take off xs @ concat (map (\<lambda>k. map of_nat (quad_pattern k)) [i..<n])"
proof (induction i n off xs rule: generateElementIndices_loop.induct)
  case (1 i n off xs)
  show ?case
  proof (cases "i < n")
    case False
    with 1 show ?thesis by (subst generateElementIndices_loop.simps) simp
  next
    case True
    define ys where "ys = xs[off := of_nat (i * 4), off + 1 := of_nat (i * 4),
      off + 2 := of_nat (i * 4 + 1), off + 3 := of_nat (i * 4 + 2),
      off + 4 := of_nat (i * 4 + 3), off + 5 := of_nat (i * 4 + 3)]"
    have len: "off + 6 \<le> length xs" using True 1 by simp
    have ys: "ys = take off xs @ map of_nat (quad_pattern i) @ drop (off + 6) xs"
      unfolding ys_def quad_pattern_def using six_update [OF len]
      by (simp add: mult.commute)
    have step: "generateElementIndices_loop i n off xs =
        generateElementIndices_loop (i + 1) n (off + 6) ys"
      using True by (subst generateElementIndices_loop.simps) (simp add: Let_def ys_def)
    have "generateElementIndices_loop (i + 1) n (off + 6) ys =
        take (off + 6) ys @ concat (map (\<lambda>k. map of_nat (quad_pattern k)) [i + 1..<n])"
      using "1.IH" [OF True refl refl refl refl refl refl refl, folded ys_def] True 1
      by (simp add: ys_def)
    moreover have "take (off + 6) ys = take off xs @ map of_nat (quad_pattern i)"
      using len by (simp add: ys quad_pattern_def)
    ultimately show ?thesis
      using True by (simp add: step upt_conv_Cons)
  qed
qed

lemma generateElementIndices_concat:
  "generateElementIndices n = concat (map (\<lambda>k. map of_nat (quad_pattern k)) [0..<n])"
  unfolding generateElementIndices_def
  by (subst generateElementIndices_loop_eq [where i = 0 and n = n]) simp_all

lemma length_quad_blocks:
  "length (concat (map (\<lambda>k. map of_nat (quad_pattern k) :: uint16 list) [i..<j])) = 6 * (j - i)"
  by (induction j) (auto simp: quad_pattern_def)

lemma generateElementIndices_length: "length (generateElementIndices n) = 6 * n"
  by (simp add: generateElementIndices_concat length_quad_blocks)

lemma generateElementIndices_slice:
  assumes "i < n"
  shows "take 6 (drop (6 * i) (generateElementIndices n)) = map of_nat (quad_pattern i)"
proof -
  let ?f = "\<lambda>k. map of_nat (quad_pattern k) :: uint16 list"
  have split: "[0..<n] = [0..<i] @ i # [Suc i..<n]"
    using assms by (metis le_add2 le_add_same_cancel2 upt_add_eq_append upt_conv_Cons less_imp_le_nat le_add_diff_inverse)
  have "generateElementIndices n = concat (map ?f [0..<i]) @ ?f i @ concat (map ?f [Suc i..<n])"
    by (simp add: generateElementIndices_concat split)
  moreover have "length (concat (map ?f [0..<i])) = 6 * i"
    using length_quad_blocks [of 0 i] by simp
  moreover have "length (?f i) = 6" by (simp add: quad_pattern_def)
  ultimately show ?thesis by simp
qed

lemma quad_indices_mod:
  assumes "i < n"
  shows "quad_indices (generateElementIndices n) i = map (\<lambda>k. k mod 65536) (quad_pattern i)"
  using generateElementIndices_slice [OF assms]
  by (simp add: quad_indices_def unat_of_nat)

text \<open>
  Claim C6, as the code has it. For every instance count \<open>N\<close> the function produces exactly
  \<open>6N\<close> indices, and the six indices of quad \<open>i\<close> are the pattern
  \<open>[4i, 4i, 4i+1, 4i+2, 4i+3, 4i+3]\<close> reduced modulo \<open>2 ^ 16\<close>, the width of an
  element of the \<open>Uint16Array\<close>; for \<open>N \<le> 16384\<close>, where every vertex index fits an
  element, they are the pattern itself.
\<close>

theorem generateElementIndices_pattern:
  "length (generateElementIndices n) = 6 * n \<and>
   (\<forall>i<n. quad_indices (generateElementIndices n) i = map (\<lambda>k. k mod 65536) (quad_pattern i)) \<and>
   (n \<le> 16384 \<longrightarrow> (\<forall>i<n. quad_indices (generateElementIndices n) i = quad_pattern i))"
proof (intro conjI allI impI)
  show "length (generateElementIndices n) = 6 * n" by (rule generateElementIndices_length)
next
  fix i assume "i < n"
  then show "quad_indices (generateElementIndices n) i = map (\<lambda>k. k mod 65536) (quad_pattern i)"
    by (rule quad_indices_mod)
next
  fix i assume "n \<le> 16384" "i < n"
  then have "4 * i + 3 < 65536" by simp
  then show "quad_indices (generateElementIndices n) i = quad_pattern i"
    using quad_indices_mod [OF \<open>i < n\<close>] by (simp add: quad_pattern_def)
qed

theorem generateElementIndices_pattern_witness:
  "length (generateElementIndices 2) = 12 \<and>
   quad_indices (generateElementIndices 2) 0 = [0, 0, 1, 2, 3, 3] \<and>
   quad_indices (generateElementIndices 2) 1 = [4, 4, 5, 6, 7, 7]"
proof -
  have "(0::nat) < 2" "(1::nat) < 2" "(2::nat) \<le> 16384" by simp_all
  then show ?thesis
    using generateElementIndices_pattern [of 2] by (simp add: quad_pattern_def)
qed

text \<open>
  With 16385 instances the last quad starts at vertex 65536, which a 16-bit element
  stores as 0: its indices are not the pattern of the claim.
\<close>

theorem generateElementIndices_wraps:
  "quad_indices (generateElementIndices 16385) 16384 = [0, 0, 1, 2, 3, 3] \<and>
   quad_indices (generateElementIndices 16385) 16384 \<noteq> quad_pattern 16384"
proof -
  have "(16384::nat) < 16385" by simp
  from quad_indices_mod [OF this] show ?thesis by (simp add: quad_pattern_def)
qed

section \<open>Properties of the texture unit setter\<close>

lemma Math_min_Number [simp]:
  "Math_min (Number a) (Number b) =
     (if a = NaN \<or> b = NaN then NaN else if jsnum_less b a then b else a)"
  by (simp add: Math_min_def)

lemma Math_max_Number [simp]:
  "Math_max (Number a) (Number b) =
     (if a = NaN \<or> b = NaN then NaN else if jsnum_less a b then b else a)"
  by (simp add: Math_max_def)

lemma clamp_code:
  assumes "jsnum_le (Fin 1) hi" "v \<noteq> NaN"
  shows "Math_max (Number (Fin 1)) (Number (Math_min (Number v) (Number hi))) =
         clamp_spec (Fin 1) hi v"
  using assms by (cases v; cases hi) (auto simp: jsnum_le_def clamp_spec_def)

lemma clamp_spec_range:
  assumes "jsnum_le lo hi" "v \<noteq> NaN"
  shows "jsnum_le lo (clamp_spec lo hi v) \<and> jsnum_le (clamp_spec lo hi v) hi"
  using assms by (cases v; cases hi; cases lo) (auto simp: jsnum_le_def clamp_spec_def)

text \<open>
  Claim C7. The renderer has at least one texture unit. For every numeric argument \<open>v\<close>
  (finite or infinite, not \<open>NaN\<close>), \<open>setMaxParallelTextureUnits(v)\<close> stores the clamp of
  \<open>v\<close> into \<open>[1, renderer.maxTextures]\<close>, the stored value lies in that range, and the
  event \<open>SET_PARALLEL_TEXTURE_UNITS\<close> is emitted with it; 0 gives 1, and
  \<open>renderer.maxTextures + 5\<close> gives \<open>renderer.maxTextures\<close>.
\<close>

theorem setMaxParallelTextureUnits_clamps:
  assumes "jsnum_le (Fin 1) (renderer_maxTextures m)" and "v \<noteq> NaN"
  shows "maxParallelTextureUnits (setMaxParallelTextureUnits (Number v) m) =
           clamp_spec (Fin 1) (renderer_maxTextures m) v \<and>
         jsnum_le (Fin 1) (maxParallelTextureUnits (setMaxParallelTextureUnits (Number v) m)) \<and>
         jsnum_le (maxParallelTextureUnits (setMaxParallelTextureUnits (Number v) m))
           (renderer_maxTextures m) \<and>
         emitted (setMaxParallelTextureUnits (Number v) m) =
           emitted m @ [(SET_PARALLEL_TEXTURE_UNITS, clamp_spec (Fin 1) (renderer_maxTextures m) v)] \<and>
         (v = Fin 0 \<longrightarrow>
            maxParallelTextureUnits (setMaxParallelTextureUnits (Number v) m) = Fin 1) \<and>
         (\<forall>k. renderer_maxTextures m = Fin k \<and> v = Fin (k + 5) \<longrightarrow>
            maxParallelTextureUnits (setMaxParallelTextureUnits (Number v) m) = Fin k)"
proof -
  have eq: "maxParallelTextureUnits (setMaxParallelTextureUnits (Number v) m) =
      clamp_spec (Fin 1) (renderer_maxTextures m) v"
    using clamp_code [OF assms] by (simp add: setMaxParallelTextureUnits_def Let_def)
  have em: "emitted (setMaxParallelTextureUnits (Number v) m) =
      emitted m @ [(SET_PARALLEL_TEXTURE_UNITS, clamp_spec (Fin 1) (renderer_maxTextures m) v)]"
    using clamp_code [OF assms] by (simp add: setMaxParallelTextureUnits_def Let_def)
  have z: "v = Fin 0 \<longrightarrow> clamp_spec (Fin 1) (renderer_maxTextures m) v = Fin 1"
    by (simp add: clamp_spec_def)
  have top: "\<forall>k. renderer_maxTextures m = Fin k \<and> v = Fin (k + 5) \<longrightarrow>
      clamp_spec (Fin 1) (renderer_maxTextures m) v = Fin k"
    using assms(1) by (auto simp: clamp_spec_def jsnum_le_def)
  show ?thesis
    unfolding eq em using z top clamp_spec_range [OF assms] by blast
qed

theorem setMaxParallelTextureUnits_clamps_witness:
  "maxParallelTextureUnits
     (setMaxParallelTextureUnits (Number (Fin 0)) (initialize (Fin 16) False True False :: unit manager)) = Fin 1 \<and>
   maxParallelTextureUnits
     (setMaxParallelTextureUnits (Number (Fin 21)) (initialize (Fin 16) False True False :: unit manager)) = Fin 16 \<and>
   maxParallelTextureUnits
     (setMaxParallelTextureUnits (Number (Fin 7)) (initialize (Fin 16) False True False :: unit manager)) = Fin 7 \<and>
   emitted
     (setMaxParallelTextureUnits (Number (Fin 21)) (initialize (Fin 16) False True False :: unit manager)) =
       [(SET_PARALLEL_TEXTURE_UNITS, Fin 16)]"
proof -
  let ?m = "initialize (Fin 16) False True False :: unit manager"
  have mt: "renderer_maxTextures ?m = Fin 16" and em: "emitted ?m = []"
    by (simp_all add: initialize_def)
  have h: "jsnum_le (Fin 1) (renderer_maxTextures ?m)" by (simp add: mt jsnum_le_def)
  have n: "Fin 0 \<noteq> NaN" "Fin 21 \<noteq> NaN" "Fin 7 \<noteq> NaN" by simp_all
  show ?thesis
    using setMaxParallelTextureUnits_clamps [OF h n(1)]
      setMaxParallelTextureUnits_clamps [OF h n(2)]
      setMaxParallelTextureUnits_clamps [OF h n(3)]
    by (simp add: mt em clamp_spec_def)
qed

text \<open>
  Claim C9. Called with no argument, \<open>setMaxParallelTextureUnits\<close> stores \<open>NaN\<close>:
  \<open>Math.min(undefined, renderer.maxTextures)\<close> is \<open>NaN\<close>, and so is
  \<open>Math.max(1, NaN)\<close>. The stored value is then neither at least 1 nor at most
  \<open>renderer.maxTextures\<close>, and \<open>NaN\<close> is what the listeners are told.
\<close>

theorem setMaxParallelTextureUnits_undefined:
  "maxParallelTextureUnits (setMaxParallelTextureUnits Undefined m) = NaN \<and>
   \<not> jsnum_le (Fin 1) (maxParallelTextureUnits (setMaxParallelTextureUnits Undefined m)) \<and>
   \<not> jsnum_le (maxParallelTextureUnits (setMaxParallelTextureUnits Undefined m))
       (renderer_maxTextures m) \<and>
   emitted (setMaxParallelTextureUnits Undefined m) =
     emitted m @ [(SET_PARALLEL_TEXTURE_UNITS, NaN)]"
  by (simp add: setMaxParallelTextureUnits_def Math_min_def Math_max_def jsnum_le_def Let_def)

section \<open>Properties of the debug dump\<close>

lemma indentString_spaces: "indentString n = replicate (2 * n) CHR '' ''"
  by (induction n) (simp_all add: indentString_def)

lemma unlines_append: "unlines (xs @ ys) = unlines xs @ unlines ys"
  by (simp add: unlines_def)

lemma format_tree_lines:
  "formatNode g d = unlines (tree_lines d g)"
  "formatChildren cs d str = str @ unlines (concat (map (tree_lines (d + 1)) cs))"
proof (induction g d and cs d str rule: formatNode_formatChildren.induct)
  case (1 nm cs indent)
  then show ?case by (simp add: indentString_spaces unlines_def)
next
  case (2 indent str)
  then show ?case by (simp add: unlines_def)
next
  case (3 c cs indent str)
  then show ?case by (simp add: unlines_append)
qed

lemma pushDebug_off: "\<not> debug m \<Longrightarrow> pushDebug name m = Inr m"
  by (simp add: pushDebug_def)

lemma popDebug_off: "\<not> debug m \<Longrightarrow> popDebug m = Inr m"
  by (simp add: popDebug_def)

lemma setDebug_False_graph:
  "\<exists>m'. setDebug False m = Inr m' \<and> debugGraph m' = debugGraph m \<and> \<not> debug m'"
  by (simp add: setDebug_def Let_def)

lemma setDebug_True_graph:
  "\<exists>m'. setDebug True m = Inr m' \<and> debugGraph m' = Some (DNode ''[Render Tree Root]'' [])"
  by (simp add: setDebug_def pushDebug_def Let_def)

text \<open>
  Claim C10. \<open>debugToString\<close> throws a \<open>TypeError\<close> when \<open>debugGraph\<close> is \<open>null\<close>,
  and otherwise returns the tree as lines, one per node, indented by two spaces per level.
  The graph is \<open>null\<close> in a new manager and \<open>setDebug(false)\<close> leaves it as it is, so
  there the call throws; after \<open>setDebug(true)\<close> the graph holds the synthetic root and the
  call returns its line.
\<close>

theorem debugToString_null_throws:
  "debugToString m =
     (case debugGraph m of
        None \<Rightarrow> Inl TypeError
      | Some g \<Rightarrow> Inr (unlines (tree_lines 0 g))) \<and>
   debugGraph (initialize maxTextures autoMobilePipeline desktop selfShadow :: 'c manager) = None \<and>
   debugToString (initialize maxTextures autoMobilePipeline desktop selfShadow :: 'c manager) =
     Inl TypeError \<and>
   (\<exists>m'. setDebug False m = Inr m' \<and> debugGraph m' = debugGraph m) \<and>
   (\<exists>m'. setDebug True m = Inr m' \<and>
      debugToString m' = Inr (''[Render Tree Root]'' @ [CHR 0x0A]))"
proof -
  have a: "debugToString m =
     (case debugGraph m of None \<Rightarrow> Inl TypeError | Some g \<Rightarrow> Inr (unlines (tree_lines 0 g)))"
    by (simp add: debugToString_def format_tree_lines split: option.split)
  have b: "debugGraph (initialize maxTextures autoMobilePipeline desktop selfShadow :: 'c manager) = None"
    by (simp add: initialize_def)
  have c: "debugToString (initialize maxTextures autoMobilePipeline desktop selfShadow :: 'c manager) =
     Inl TypeError"
    by (simp add: debugToString_def b)
  have d: "\<exists>m'. setDebug False m = Inr m' \<and> debugGraph m' = debugGraph m"
    using setDebug_False_graph [of m] by blast
  obtain m' where m': "setDebug True m = Inr m'"
      "debugGraph m' = Some (DNode ''[Render Tree Root]'' [])"
    using setDebug_True_graph [of m] by blast
  have "debugToString m' = Inr (''[Render Tree Root]'' @ [CHR 0x0A])"
    by (simp add: debugToString_def m'(2) indentString_def)
  with m'(1) have e: "\<exists>m'. setDebug True m = Inr m' \<and>
      debugToString m' = Inr (''[Render Tree Root]'' @ [CHR 0x0A])" by blast
  show ?thesis using a b c d e by blast
qed

section \<open>Properties of the node registry\<close>

lemma js_get_empty_constructor: "js_get [] ''constructor'' = (Inherited :: 'v js_prop)"
  by (simp add: js_get_def object_prototype_names_def)

text \<open>
  Claim C5 at a name that was never registered: in a new manager, registering a node
  under \<open>constructor\<close> throws "already exists", and so does registering a constructor
  under \<open>toString\<close>, because the lookup in the object literal finds the members of
  \<open>Object.prototype\<close>; \<open>hasNode\<close> reports a constructed node of that name.
\<close>

theorem addNode_inherited_name_throws:
  "addNode ''constructor'' node (initialize maxTextures autoMobilePipeline desktop selfShadow :: 'c manager) =
     Inl (Error ''node constructor already exists.'') \<and>
   addNodeConstructor ''toString'' c (initialize maxTextures autoMobilePipeline desktop selfShadow :: 'c manager) =
     Inl (Error ''node constructor toString already exists.'') \<and>
   hasNode ''constructor'' True (initialize maxTextures autoMobilePipeline desktop selfShadow :: 'c manager)"
  by (simp add: addNode_def addNodeConstructor_def hasNode_def initialize_def js_get_def
      object_prototype_names_def builtin_names_def map_of_eq_None_iff)

text \<open>
  For names that are not inherited the registry behaves as the claim says: a second
  registration under the same name throws, and two distinct free names are registered
  and retrieved independently.
\<close>

lemma map_of_replace_other:
  "k \<noteq> name \<Longrightarrow>
   map_of (map (\<lambda>(k, x). if k = name then (k, v) else (k, x)) props) k = map_of props k"
  by (induction props) (simp_all split: prod.split)

lemma map_of_replace_same:
  "name \<in> fst ` set props \<Longrightarrow>
   map_of (map (\<lambda>(k, x). if k = name then (k, v) else (k, x)) props) name = Some v"
  by (induction props) (auto split: prod.split)

lemma map_of_replace:
  "map_of (map (\<lambda>(k, x). if k = name then (k, v) else (k, x)) props) k =
     (if k = name \<and> name \<in> fst ` set props then Some v else map_of props k)"
proof (cases "k = name")
  case True
  show ?thesis
  proof (cases "name \<in> fst ` set props")
    case True
    with \<open>k = name\<close> show ?thesis by (simp add: map_of_replace_same)
  next
    case False
    then have "map (\<lambda>(k, x). if k = name then (k, v) else (k, x)) props = props"
      by (induction props) (auto split: prod.split)
    with False show ?thesis by simp
  qed
next
  case False
  then show ?thesis by (simp add: map_of_replace_other)
qed

lemma map_of_js_set: "map_of (js_set props name v) = (map_of props)(name \<mapsto> v)"
proof
  fix k
  show "map_of (js_set props name v) k = ((map_of props)(name \<mapsto> v)) k"
  proof (cases "name \<in> fst ` set props")
    case True
    then show ?thesis by (simp add: js_set_def map_of_replace)
  next
    case False
    then have none: "map_of props name = None"
      by (simp add: map_of_eq_None_iff)
    show ?thesis
    proof (cases "k = name")
      case True
      then show ?thesis using False none by (simp add: js_set_def map_add_def)
    next
      case neq: False
      then show ?thesis using False
        by (cases "map_of props k") (simp_all add: js_set_def map_add_def)
    qed
  qed
qed

lemma js_get_js_set:
  "js_get (js_set props name v) k = (if k = name then Own v else js_get props k)"
  by (simp add: js_get_def map_of_js_set)

lemma addNode_twice_fails:
  assumes "addNode name node m = Inr m'"
  shows "addNode name node' m' = Inl (Error (''node '' @ name @ '' already exists.''))"
  using assms by (auto simp: addNode_def js_get_js_set Let_def split: if_splits)

lemma addNodeConstructor_twice_fails:
  assumes "addNodeConstructor name c m = Inr m'"
  shows "addNodeConstructor name c' m' =
     Inl (Error (''node constructor '' @ name @ '' already exists.''))"
  using assms by (auto simp: addNodeConstructor_def js_get_js_set split: if_splits)

lemma addNode_present_fails:
  "truthy (js_get (nodes m) name) \<Longrightarrow>
   addNode name node m = Inl (Error (''node '' @ name @ '' already exists.''))"
  by (simp add: addNode_def)

lemma addNode_fresh_succeeds:
  assumes "js_get (nodes m) name = Missing"
  shows "\<exists>m'. addNode name node m = Inr m' \<and> js_get (nodes m') name = Own node \<and>
     (\<forall>k. k \<noteq> name \<longrightarrow> js_get (nodes m') k = js_get (nodes m) k)"
  using assms by (auto simp: addNode_def js_get_js_set Let_def)

lemma addNode_two_fresh_names:
  assumes "a \<noteq> b" "js_get (nodes m) a = Missing" "js_get (nodes m) b = Missing"
  shows "\<exists>m1 m2. addNode a x m = Inr m1 \<and> addNode b y m1 = Inr m2 \<and>
     getNode a m2 = Inr (GotNode x, m2) \<and> getNode b m2 = Inr (GotNode y, m2)"
proof -
  obtain m1 where m1: "addNode a x m = Inr m1" "js_get (nodes m1) a = Own x"
      "\<forall>k. k \<noteq> a \<longrightarrow> js_get (nodes m1) k = js_get (nodes m) k"
    using addNode_fresh_succeeds [OF assms(2)] by blast
  then have "js_get (nodes m1) b = Missing" using assms by simp
  then obtain m2 where m2: "addNode b y m1 = Inr m2" "js_get (nodes m2) b = Own y"
      "\<forall>k. k \<noteq> b \<longrightarrow> js_get (nodes m2) k = js_get (nodes m1) k"
    using addNode_fresh_succeeds by blast
  then have "js_get (nodes m2) a = Own x" using m1 assms by simp
  then show ?thesis using m1 m2 by (auto simp: getNode_def)
qed

section \<open>Properties of the batch handler and the current batch\<close>

lemma run_empty:
  "instanceCount (handlers w self) = 0 \<Longrightarrow>
   run self c w = Ok (w\<lparr>calls := calls w @ [(self, c)]\<rparr>)"
  by (simp add: run_def)

lemma run_pending:
  "0 < instanceCount (handlers w self) \<Longrightarrow>
   run self (CtxObj c) w =
     Ok (w\<lparr>calls := calls w @ [(self, CtxObj c)],
           gpu := gpu w @ flush_events self c (handlers w self),
           handlers := (handlers w)(self := (handlers w self)\<lparr>instanceCount := 0\<rparr>)\<rparr>)"
  by (simp add: run_def onRunBegin_def Let_def flush_events_def)

lemma run_throws:
  "0 < instanceCount (handlers w self) \<Longrightarrow> c = CtxNull \<or> c = CtxUndefined \<Longrightarrow>
   run self c w = Threw TypeError (w\<lparr>calls := calls w @ [(self, c)]\<rparr>)"
  by (auto simp add: run_def Let_def)

lemma run_calls: "calls (state_of (run self c w)) = calls w @ [(self, c)]"
  by (cases "instanceCount (handlers w self) = 0"; cases c)
     (simp_all add: run_empty run_pending run_throws)

lemma run_mgr: "mgr (state_of (run self c w)) = mgr w"
  by (cases "instanceCount (handlers w self) = 0"; cases c)
     (simp_all add: run_empty run_pending run_throws)

lemma run_other: "n \<noteq> self \<Longrightarrow> handlers (state_of (run self c w)) n = handlers w n"
  by (cases "instanceCount (handlers w self) = 0"; cases c)
     (simp_all add: run_empty run_pending run_throws)

lemma run_self:
  "handlers (state_of (run self c w)) self = handlers w self \<or>
   handlers (state_of (run self c w)) self = (handlers w self)\<lparr>instanceCount := 0\<rparr>"
  by (cases "instanceCount (handlers w self) = 0"; cases c)
     (simp_all add: run_empty run_pending run_throws)

lemma draws_of_append: "draws_of self (xs @ ys) = draws_of self xs @ draws_of self ys"
  by (induction self xs rule: draws_of.induct) simp_all

lemma draws_of_flush_events:
  "draws_of n (flush_events self c h) =
     (if n = self then [(c, instanceCount h * indicesPerInstance h)] else [])"
  by (simp add: flush_events_def)

lemma run_draws_other: "n \<noteq> self \<Longrightarrow> draws_of n (gpu (state_of (run self c w))) = draws_of n (gpu w)"
  by (cases "instanceCount (handlers w self) = 0"; cases c)
     (simp_all add: run_empty run_pending run_throws draws_of_append draws_of_flush_events)

lemma runs_of_append: "runs_of self (xs @ ys) = runs_of self xs @ runs_of self ys"
  by (simp add: runs_of_def)

text \<open>
  Claim C4. With \<open>instanceCount\<close> 0, \<open>run\<close> returns at once: nothing changes but the
  record of the call, so no draw call is issued. Otherwise, given a drawing context, it
  makes the calls of one flush, among them exactly one draw call, over
  \<open>instanceCount * indicesPerInstance\<close> indices, and leaves \<open>instanceCount\<close> at 0; a
  second \<open>run\<close> right after it, with any argument, returns without a further call on
  the renderer and without a change to the handlers or the manager.
\<close>

theorem run_flushes_once:
  "(instanceCount (handlers w self) = 0 \<longrightarrow>
      run self c w = Ok (w\<lparr>calls := calls w @ [(self, c)]\<rparr>)) \<and>
   (0 < instanceCount (handlers w self) \<longrightarrow>
      (\<exists>w'. run self (CtxObj d) w = Ok w' \<and>
         gpu w' = gpu w @ flush_events self d (handlers w self) \<and>
         draws_of self (gpu w') = draws_of self (gpu w) @
           [(d, instanceCount (handlers w self) * indicesPerInstance (handlers w self))] \<and>
         instanceCount (handlers w' self) = 0 \<and>
         (\<exists>w''. run self c w' = Ok w'' \<and> gpu w'' = gpu w' \<and> handlers w'' = handlers w' \<and>
            mgr w'' = mgr w')))"
  by (auto simp: run_empty run_pending draws_of_append draws_of_flush_events)


lemma setCurrentBatchNode_same:
  "currentBatchNode (mgr w) = node \<Longrightarrow> setCurrentBatchNode node c w = Ok w"
  by (simp add: setCurrentBatchNode_def)

lemma setCurrentBatchNode_from_none:
  "currentBatchNode (mgr w) = None \<Longrightarrow> node \<noteq> None \<Longrightarrow>
   setCurrentBatchNode node c w =
     Ok (w\<lparr>mgr := (mgr w)\<lparr>currentBatchNode := node, currentBatchDrawingContext := c\<rparr>\<rparr>)"
  by (auto simp add: setCurrentBatchNode_def)

lemma setCurrentBatchNode_switch:
  "currentBatchNode (mgr w) = Some cur \<Longrightarrow> node \<noteq> Some cur \<Longrightarrow>
   setCurrentBatchNode node c w =
     (case run cur (currentBatchDrawingContext (mgr w)) w of
        Threw e w' \<Rightarrow> Threw e w'
      | Ok w' \<Rightarrow>
          Ok (w'\<lparr>mgr := (mgr w')\<lparr>currentBatchNode := node,
                 currentBatchDrawingContext := (if node \<noteq> None then c else CtxNull)\<rparr>\<rparr>))"
  by (auto simp add: setCurrentBatchNode_def)

lemma setCurrentBatchNode_switch_calls:
  assumes "currentBatchNode (mgr w) = Some cur" "node \<noteq> Some cur"
  shows "calls (state_of (setCurrentBatchNode node c w)) =
           calls w @ [(cur, currentBatchDrawingContext (mgr w))]"
proof -
  have "calls (state_of (run cur (currentBatchDrawingContext (mgr w)) w)) =
      calls w @ [(cur, currentBatchDrawingContext (mgr w))]"
    by (rule run_calls)
  then show ?thesis
    by (cases "run cur (currentBatchDrawingContext (mgr w)) w")
       (simp_all add: setCurrentBatchNode_switch [OF assms])
qed

lemma setCurrentBatchNode_installs:
  assumes "setCurrentBatchNode node c w = Ok w'" "currentBatchNode (mgr w) \<noteq> node"
  shows "currentBatchNode (mgr w') = node \<and>
         currentBatchDrawingContext (mgr w') = (if node \<noteq> None then c else CtxNull)"
  using assms
  by (auto simp: setCurrentBatchNode_def split: option.splits outcome.splits if_splits)

lemma setCurrentBatchNode_current:
  assumes "setCurrentBatchNode node c w = Ok w'"
  shows "currentBatchNode (mgr w') = node"
  using assms setCurrentBatchNode_installs [OF assms]
  by (cases "currentBatchNode (mgr w) = node") (auto simp: setCurrentBatchNode_same)

text \<open>
  The manager never keeps a drawing context without a current node: this holds in a new
  manager and is kept by every call of \<open>setCurrentBatchNode\<close>, also one that throws.
\<close>

lemma setCurrentBatchNode_null_context:
  assumes "currentBatchNode (mgr w) = None \<longrightarrow> currentBatchDrawingContext (mgr w) = CtxNull"
  shows "currentBatchNode (mgr (state_of (setCurrentBatchNode node c w))) = None \<longrightarrow>
         currentBatchDrawingContext (mgr (state_of (setCurrentBatchNode node c w))) = CtxNull"
proof (cases "currentBatchNode (mgr w) = node")
  case True
  with assms show ?thesis by (simp add: setCurrentBatchNode_same)
next
  case False
  show ?thesis
  proof (cases "currentBatchNode (mgr w)")
    case None
    with False have nn: "node \<noteq> None" by simp
    have "currentBatchNode (mgr (state_of (setCurrentBatchNode node c w))) = node"
      by (simp add: setCurrentBatchNode_from_none [OF None nn])
    with nn show ?thesis by auto
  next
    case (Some cur)
    from False Some have ne: "node \<noteq> Some cur" by simp
    have m: "mgr (state_of (run cur (currentBatchDrawingContext (mgr w)) w)) = mgr w"
      by (rule run_mgr)
    note eq = setCurrentBatchNode_switch [OF Some ne, of c]
    show ?thesis
      unfolding eq using m Some
      by (cases "run cur (currentBatchDrawingContext (mgr w)) w") auto
  qed
qed

lemma new_world_null_context:
  "currentBatchNode (mgr (new_world mt n z)) = None \<and>
   currentBatchDrawingContext (mgr (new_world mt n z)) = CtxNull"
  by (simp add: new_world_def initialize_def)

text \<open>
  Claim C1, as the code has it. Let \<open>setCurrentBatchNode(A, ctxA)\<close> have returned. Then
  \<open>A\<close> is the current node, and its stored drawing context is \<open>ctxA\<close> when the call
  installed \<open>A\<close>, and the context stored before when \<open>A\<close> was current already. For \<open>B\<close> other than \<open>A\<close>,
  \<open>setCurrentBatchNode(B, ctxB)\<close> is one call of \<open>A.run\<close> with the stored context, made
  while \<open>A\<close> is still current, followed by the installation of \<open>B\<close> and \<open>ctxB\<close>; it
  adds exactly that one call to the calls of \<open>run\<close>. \<open>setCurrentBatchNode(A, anything)\<close>
  returns the state unchanged. \<open>setCurrentBatchNode(null)\<close> makes the same single call of
  \<open>A.run\<close> and leaves both the current node and the stored context \<open>null\<close>; with no
  current node it changes nothing.
\<close>

theorem setCurrentBatchNode_flushes_previous:
  assumes "A \<noteq> B" and "setCurrentBatchNode (Some A) ctxA w = Ok w1"
  shows "currentBatchNode (mgr w1) = Some A \<and>
         currentBatchDrawingContext (mgr w1) =
           (if currentBatchNode (mgr w) = Some A then currentBatchDrawingContext (mgr w)
            else ctxA) \<and>
         setCurrentBatchNode (Some B) ctxB w1 =
           (case run A (currentBatchDrawingContext (mgr w1)) w1 of
              Threw e w2 \<Rightarrow> Threw e w2
            | Ok w2 \<Rightarrow>
                Ok (w2\<lparr>mgr := (mgr w2)\<lparr>currentBatchNode := Some B,
                       currentBatchDrawingContext := ctxB\<rparr>\<rparr>)) \<and>
         calls (state_of (setCurrentBatchNode (Some B) ctxB w1)) =
           calls w1 @ [(A, currentBatchDrawingContext (mgr w1))] \<and>
         (\<forall>w2. setCurrentBatchNode (Some B) ctxB w1 = Ok w2 \<longrightarrow>
            currentBatchNode (mgr w2) = Some B \<and> currentBatchDrawingContext (mgr w2) = ctxB) \<and>
         setCurrentBatchNode (Some A) anything w1 = Ok w1 \<and>
         calls (state_of (setCurrentBatchNode None anything w1)) =
           calls w1 @ [(A, currentBatchDrawingContext (mgr w1))] \<and>
         (\<forall>w2. setCurrentBatchNode None anything w1 = Ok w2 \<longrightarrow>
            currentBatchNode (mgr w2) = None \<and> currentBatchDrawingContext (mgr w2) = CtxNull) \<and>
         (\<forall>w0. currentBatchNode (mgr w0) = None \<longrightarrow>
            setCurrentBatchNode None anything w0 = Ok w0)"
proof -
  have cur: "currentBatchNode (mgr w1) = Some A"
    using assms(2) by (rule setCurrentBatchNode_current)
  have stored: "currentBatchDrawingContext (mgr w1) =
      (if currentBatchNode (mgr w) = Some A then currentBatchDrawingContext (mgr w) else ctxA)"
  proof (cases "currentBatchNode (mgr w) = Some A")
    case True
    then have "w1 = w" using assms(2) by (simp add: setCurrentBatchNode_same)
    with True show ?thesis by simp
  next
    case False
    with setCurrentBatchNode_installs [OF assms(2)] show ?thesis by simp
  qed
  have nB: "Some B \<noteq> Some A" using assms(1) by simp
  have nN: "None \<noteq> Some A" by simp
  have sw: "setCurrentBatchNode (Some B) ctxB w1 =
      (case run A (currentBatchDrawingContext (mgr w1)) w1 of
         Threw e w2 \<Rightarrow> Threw e w2
       | Ok w2 \<Rightarrow>
           Ok (w2\<lparr>mgr := (mgr w2)\<lparr>currentBatchNode := Some B,
                  currentBatchDrawingContext := ctxB\<rparr>\<rparr>))"
    using setCurrentBatchNode_switch [OF cur nB] by simp
  have callsB: "calls (state_of (setCurrentBatchNode (Some B) ctxB w1)) =
      calls w1 @ [(A, currentBatchDrawingContext (mgr w1))]"
    by (rule setCurrentBatchNode_switch_calls [OF cur nB])
  have instB: "\<forall>w2. setCurrentBatchNode (Some B) ctxB w1 = Ok w2 \<longrightarrow>
      currentBatchNode (mgr w2) = Some B \<and> currentBatchDrawingContext (mgr w2) = ctxB"
    using setCurrentBatchNode_installs [of "Some B" ctxB w1] cur assms(1) by auto
  have same: "setCurrentBatchNode (Some A) anything w1 = Ok w1"
    using cur by (rule setCurrentBatchNode_same)
  have callsN: "calls (state_of (setCurrentBatchNode None anything w1)) =
      calls w1 @ [(A, currentBatchDrawingContext (mgr w1))]"
    by (rule setCurrentBatchNode_switch_calls [OF cur nN])
  have instN: "\<forall>w2. setCurrentBatchNode None anything w1 = Ok w2 \<longrightarrow>
      currentBatchNode (mgr w2) = None \<and> currentBatchDrawingContext (mgr w2) = CtxNull"
    using setCurrentBatchNode_installs [of None anything w1] cur by auto
  have idle: "\<forall>w0. currentBatchNode (mgr w0) = None \<longrightarrow>
      setCurrentBatchNode None anything w0 = Ok w0"
    by (simp add: setCurrentBatchNode_same)
  show ?thesis
    using cur stored sw callsB instB same callsN instN idle by blast
qed

lemma batch_unfold:
  "batch ops self c l xTL yTL xBL yBL xTR yTR xBR yBR lightX lightY w =
     (case (if instanceCount (handlers w self) = 0
            then setCurrentBatchNode (Some self) (CtxObj c) w else Ok w) of
        Threw e w' \<Rightarrow> Threw e w'
      | Ok w' \<Rightarrow>
          (if instanceCount (handlers w' self) + 1 = instancesPerBatch (handlers w' self)
           then run self (CtxObj c)
                  (w'\<lparr>handlers := (handlers w')(self :=
                       add_instance ops (handlers w' self) c l
                         xTL yTL xBL yBL xTR yTR xBR yBR lightX lightY)\<rparr>)
           else Ok (w'\<lparr>handlers := (handlers w')(self :=
                       add_instance ops (handlers w' self) c l
                         xTL yTL xBL yBL xTR yTR xBR yBR lightX lightY)\<rparr>)))"
  by (simp add: batch_def add_instance_def Let_def split: outcome.split)

lemma runs_of_snoc:
  "runs_of self (cs @ [(n, c)]) = (if n = self then runs_of self cs @ [c] else runs_of self cs)"
  by (simp add: runs_of_def)

lemma run_runs_other:
  "n \<noteq> self \<Longrightarrow> runs_of n (calls (state_of (run self c w))) = runs_of n (calls w)"
  by (simp add: run_calls runs_of_snoc)

lemma run_returns:
  "instanceCount (handlers w self) = 0 \<or> (\<exists>d. c = CtxObj d) \<Longrightarrow> returned (run self c w)"
  by (cases "instanceCount (handlers w self) = 0") (auto simp: run_empty run_pending)

lemma setCurrentBatchNode_returns:
  "flushable w \<Longrightarrow> returned (setCurrentBatchNode node c w)"
proof (cases "currentBatchNode (mgr w) = node")
  case True
  then show ?thesis by (simp add: setCurrentBatchNode_same)
next
  case False
  assume f: "flushable w"
  show ?thesis
  proof (cases "currentBatchNode (mgr w)")
    case None
    with False show ?thesis by (simp add: setCurrentBatchNode_def)
  next
    case (Some cur)
    with f have "instanceCount (handlers w cur) = 0 \<or>
        (\<exists>d. currentBatchDrawingContext (mgr w) = CtxObj d)"
      by (auto simp: flushable_def split: ctx_ref.splits)
    then have "returned (run cur (currentBatchDrawingContext (mgr w)) w)"
      by (rule run_returns)
    with Some False show ?thesis
      by (cases "run cur (currentBatchDrawingContext (mgr w)) w")
         (simp_all add: setCurrentBatchNode_def)
  qed
qed

lemma setCurrentBatchNode_self:
  "handlers (state_of (setCurrentBatchNode (Some self) c w)) self = handlers w self \<and>
   draws_of self (gpu (state_of (setCurrentBatchNode (Some self) c w))) = draws_of self (gpu w) \<and>
   runs_of self (calls (state_of (setCurrentBatchNode (Some self) c w))) = runs_of self (calls w)"
proof (cases "currentBatchNode (mgr w) = Some self")
  case True
  then show ?thesis by (simp add: setCurrentBatchNode_same)
next
  case False
  show ?thesis
  proof (cases "currentBatchNode (mgr w)")
    case None
    then show ?thesis by (simp add: setCurrentBatchNode_from_none)
  next
    case (Some cur)
    with False have ne: "self \<noteq> cur" by auto
    have ne': "Some self \<noteq> Some cur" using ne by simp
    note r = run_other [OF ne, of "currentBatchDrawingContext (mgr w)" w]
      run_draws_other [OF ne, of "currentBatchDrawingContext (mgr w)" w]
      run_runs_other [OF ne, of "currentBatchDrawingContext (mgr w)" w]
    show ?thesis using r
      by (cases "run cur (currentBatchDrawingContext (mgr w)) w")
         (simp_all add: setCurrentBatchNode_switch [OF Some ne'])
  qed
qed

lemma write_floats_length: "length (write_floats rnd view off vs) = length view"
  by (induction vs arbitrary: view off) simp_all

lemma write_floats_eq:
  "off + length vs \<le> length view \<Longrightarrow>
   write_floats rnd view off vs = take off view @ map rnd vs @ drop (off + length vs) view"
proof (induction vs arbitrary: view off)
  case Nil
  then show ?case by simp
next
  case (Cons v vs)
  then have lt: "off < length view" by simp
  have "write_floats rnd (view[off := rnd v]) (off + 1) vs =
      take (off + 1) (view[off := rnd v]) @ map rnd vs @
        drop (off + 1 + length vs) (view[off := rnd v])"
    using Cons.prems by (intro Cons.IH) simp
  also have "take (off + 1) (view[off := rnd v]) = take off view @ [rnd v]"
    using lt by (simp add: take_Suc_conv_app_nth)
  also have "drop (off + 1 + length vs) (view[off := rnd v]) = drop (off + 1 + length vs) view"
    by simp
  finally show ?case by simp
qed

lemma light_vertices_length:
  "length (light_vertices ops c l xTL yTL xBL yBL xTR yTR xBR yBR lightX lightY) = 40"
  by (simp add: light_vertices_def Let_def)

lemma add_instance_fields:
  "instanceCount (add_instance ops h c l xTL yTL xBL yBL xTR yTR xBR yBR lightX lightY) =
     instanceCount h + 1"
  "instancesPerBatch (add_instance ops h c l xTL yTL xBL yBL xTR yTR xBR yBR lightX lightY) =
     instancesPerBatch h"
  "floatsPerInstance (add_instance ops h c l xTL yTL xBL yBL xTR yTR xBR yBR lightX lightY) =
     floatsPerInstance h"
  "indicesPerInstance (add_instance ops h c l xTL yTL xBL yBL xTR yTR xBR yBR lightX lightY) =
     indicesPerInstance h"
  "bytesPerInstance (add_instance ops h c l xTL yTL xBL yBL xTR yTR xBR yBR lightX lightY) =
     bytesPerInstance h"
  "length (viewF32 (add_instance ops h c l xTL yTL xBL yBL xTR yTR xBR yBR lightX lightY)) =
     length (viewF32 h)"
  by (simp_all add: add_instance_def write_floats_length)

lemma add_instance_view:
  assumes "floatsPerInstance h = 40" "instanceCount h < instancesPerBatch h"
    "length (viewF32 h) = instancesPerBatch h * 40"
  shows "take 40 (drop (40 * instanceCount h)
           (viewF32 (add_instance ops h c l xTL yTL xBL yBL xTR yTR xBR yBR lightX lightY))) =
         map (fround ops) (light_vertices ops c l xTL yTL xBL yBL xTR yTR xBR yBR lightX lightY)"
proof -
  let ?vs = "light_vertices ops c l xTL yTL xBL yBL xTR yTR xBR yBR lightX lightY"
  let ?off = "instanceCount h * 40"
  have "instanceCount h + 1 \<le> instancesPerBatch h" using assms(2) by simp
  then have "(instanceCount h + 1) * 40 \<le> instancesPerBatch h * 40"
    by (rule mult_le_mono1)
  then have fit: "?off + length ?vs \<le> length (viewF32 h)"
    by (simp add: light_vertices_length assms(3))
  have "viewF32 (add_instance ops h c l xTL yTL xBL yBL xTR yTR xBR yBR lightX lightY) =
      take ?off (viewF32 h) @ map (fround ops) ?vs @ drop (?off + length ?vs) (viewF32 h)"
    using write_floats_eq [OF fit] by (simp add: add_instance_def assms(1))
  moreover have "length (take ?off (viewF32 h)) = ?off" using fit by simp
  ultimately show ?thesis by (simp add: light_vertices_length mult.commute)
qed

lemma batch_threw:
  assumes "(if instanceCount (handlers w self) = 0
            then setCurrentBatchNode (Some self) (CtxObj c) w else Ok w) = Threw e w1"
  shows "batch ops self c l xTL yTL xBL yBL xTR yTR xBR yBR lightX lightY w = Threw e w1"
  by (simp only: batch_unfold assms outcome.case)

lemma batch_partial:
  assumes "(if instanceCount (handlers w self) = 0
            then setCurrentBatchNode (Some self) (CtxObj c) w else Ok w) = Ok w1"
    and "instanceCount (handlers w1 self) + 1 \<noteq> instancesPerBatch (handlers w1 self)"
  shows "batch ops self c l xTL yTL xBL yBL xTR yTR xBR yBR lightX lightY w =
     Ok (w1\<lparr>handlers := (handlers w1)(self :=
            add_instance ops (handlers w1 self) c l
              xTL yTL xBL yBL xTR yTR xBR yBR lightX lightY)\<rparr>)"
  using assms(2) by (simp add: batch_unfold assms(1))

lemma batch_full:
  assumes "(if instanceCount (handlers w self) = 0
            then setCurrentBatchNode (Some self) (CtxObj c) w else Ok w) = Ok w1"
    and "instanceCount (handlers w1 self) + 1 = instancesPerBatch (handlers w1 self)"
  shows "batch ops self c l xTL yTL xBL yBL xTR yTR xBR yBR lightX lightY w =
     Ok (w1\<lparr>calls := calls w1 @ [(self, CtxObj c)],
            gpu := gpu w1 @ flush_events self c
              (add_instance ops (handlers w1 self) c l
                 xTL yTL xBL yBL xTR yTR xBR yBR lightX lightY),
            handlers := (handlers w1)(self :=
              (add_instance ops (handlers w1 self) c l
                 xTL yTL xBL yBL xTR yTR xBR yBR lightX lightY)\<lparr>instanceCount := 0\<rparr>)\<rparr>)"
proof -
  let ?h = "add_instance ops (handlers w1 self) c l xTL yTL xBL yBL xTR yTR xBR yBR lightX lightY"
  let ?w = "w1\<lparr>handlers := (handlers w1)(self := ?h)\<rparr>"
  have "batch ops self c l xTL yTL xBL yBL xTR yTR xBR yBR lightX lightY w =
      run self (CtxObj c) ?w"
    using assms(2) by (simp add: batch_unfold assms(1))
  moreover have "0 < instanceCount (handlers ?w self)"
    by (simp add: add_instance_fields)
  ultimately show ?thesis by (simp add: run_pending)
qed

lemma batch_pre:
  obtains (threw) e w1 where
      "(if instanceCount (handlers w self) = 0
        then setCurrentBatchNode (Some self) c w else Ok w) = Threw e w1"
      "handlers w1 self = handlers w self" "\<not> flushable w" "instanceCount (handlers w self) = 0"
      "draws_of self (gpu w1) = draws_of self (gpu w)"
      "runs_of self (calls w1) = runs_of self (calls w)"
  | (ok) w1 where
      "(if instanceCount (handlers w self) = 0
        then setCurrentBatchNode (Some self) c w else Ok w) = Ok w1"
      "handlers w1 self = handlers w self"
      "draws_of self (gpu w1) = draws_of self (gpu w)"
      "runs_of self (calls w1) = runs_of self (calls w)"
proof (cases "instanceCount (handlers w self) = 0")
  case False
  then show ?thesis using ok [of w] by simp
next
  case True
  note s = setCurrentBatchNode_self [of self c w]
  show ?thesis
  proof (cases "setCurrentBatchNode (Some self) c w")
    case (Ok w1)
    with s True show ?thesis using ok [of w1] by simp
  next
    case (Threw e w1)
    then have "\<not> flushable w" using setCurrentBatchNode_returns [of w "Some self" c] by auto
    with s True Threw show ?thesis using threw [of e w1] by simp
  qed
qed

lemma batch_returns:
  assumes "instanceCount (handlers w self) = 0 \<longrightarrow> flushable w"
  shows "returned (batch ops self c l xTL yTL xBL yBL xTR yTR xBR yBR lightX lightY w)"
proof (cases rule: batch_pre [of w self "CtxObj c"])
  case (threw e w1)
  with assms show ?thesis by simp
next
  case (ok w1)
  show ?thesis
    by (cases "instanceCount (handlers w1 self) + 1 = instancesPerBatch (handlers w1 self)")
       (simp_all add: batch_full [OF ok(1)] batch_partial [OF ok(1)])
qed

lemma batch_threw_state:
  assumes "\<not> returned (batch ops self c l xTL yTL xBL yBL xTR yTR xBR yBR lightX lightY w)"
  shows "handlers (state_of (batch ops self c l xTL yTL xBL yBL xTR yTR xBR yBR lightX lightY w)) self
           = handlers w self"
proof (cases rule: batch_pre [of w self "CtxObj c"])
  case (threw e w1)
  then show ?thesis by (simp add: batch_threw [OF threw(1)])
next
  case (ok w1)
  have "returned (batch ops self c l xTL yTL xBL yBL xTR yTR xBR yBR lightX lightY w)"
    by (cases "instanceCount (handlers w1 self) + 1 = instancesPerBatch (handlers w1 self)")
       (simp_all add: batch_full [OF ok(1)] batch_partial [OF ok(1)])
  with assms show ?thesis by simp
qed

lemma batch_ok_state:
  assumes "batch ops self c l xTL yTL xBL yBL xTR yTR xBR yBR lightX lightY w = Ok w'"
  shows "handlers w' self =
           (add_instance ops (handlers w self) c l xTL yTL xBL yBL xTR yTR xBR yBR lightX lightY)
             \<lparr>instanceCount :=
                (if instanceCount (handlers w self) + 1 = instancesPerBatch (handlers w self)
                 then 0 else instanceCount (handlers w self) + 1)\<rparr>"
    and "draws_of self (gpu w') = draws_of self (gpu w) @
           (if instanceCount (handlers w self) + 1 = instancesPerBatch (handlers w self)
            then [(c, instancesPerBatch (handlers w self) * indicesPerInstance (handlers w self))]
            else [])"
    and "runs_of self (calls w') = runs_of self (calls w) @
           (if instanceCount (handlers w self) + 1 = instancesPerBatch (handlers w self)
            then [CtxObj c] else [])"
proof -
  let ?h = "add_instance ops (handlers w self) c l xTL yTL xBL yBL xTR yTR xBR yBR lightX lightY"
  have "handlers w' self = ?h\<lparr>instanceCount :=
                (if instanceCount (handlers w self) + 1 = instancesPerBatch (handlers w self)
                 then 0 else instanceCount (handlers w self) + 1)\<rparr> \<and>
    draws_of self (gpu w') = draws_of self (gpu w) @
           (if instanceCount (handlers w self) + 1 = instancesPerBatch (handlers w self)
            then [(c, instancesPerBatch (handlers w self) * indicesPerInstance (handlers w self))]
            else []) \<and>
    runs_of self (calls w') = runs_of self (calls w) @
           (if instanceCount (handlers w self) + 1 = instancesPerBatch (handlers w self)
            then [CtxObj c] else [])"
  proof (cases rule: batch_pre [of w self "CtxObj c"])
    case (threw e w1)
    with assms show ?thesis by (simp add: batch_threw [OF threw(1)])
  next
    case (ok w1)
    show ?thesis
    proof (cases "instanceCount (handlers w1 self) + 1 = instancesPerBatch (handlers w1 self)")
      case True
      have w': "w' = w1\<lparr>calls := calls w1 @ [(self, CtxObj c)],
            gpu := gpu w1 @ flush_events self c
              (add_instance ops (handlers w1 self) c l
                 xTL yTL xBL yBL xTR yTR xBR yBR lightX lightY),
            handlers := (handlers w1)(self :=
              (add_instance ops (handlers w1 self) c l
                 xTL yTL xBL yBL xTR yTR xBR yBR lightX lightY)\<lparr>instanceCount := 0\<rparr>)\<rparr>"
        using assms batch_full [OF ok(1) True] by simp
      from True ok(2) have full: "instanceCount (handlers w self) + 1 = instancesPerBatch (handlers w self)"
        by simp
      show ?thesis
        using full ok(2,3,4)
        by (simp add: w' draws_of_append draws_of_flush_events runs_of_snoc add_instance_fields)
    next
      case False
      have w': "w' = w1\<lparr>handlers := (handlers w1)(self :=
            add_instance ops (handlers w1 self) c l
              xTL yTL xBL yBL xTR yTR xBR yBR lightX lightY)\<rparr>"
        using assms batch_partial [OF ok(1) False] by simp
      from False ok(2) have nf: "instanceCount (handlers w self) + 1 \<noteq> instancesPerBatch (handlers w self)"
        by simp
      show ?thesis using nf ok(2,3,4) by (simp add: w' add_instance_def)
    qed
  qed
  then show "handlers w' self = ?h\<lparr>instanceCount :=
                (if instanceCount (handlers w self) + 1 = instancesPerBatch (handlers w self)
                 then 0 else instanceCount (handlers w self) + 1)\<rparr>"
    and "draws_of self (gpu w') = draws_of self (gpu w) @
           (if instanceCount (handlers w self) + 1 = instancesPerBatch (handlers w self)
            then [(c, instancesPerBatch (handlers w self) * indicesPerInstance (handlers w self))]
            else [])"
    and "runs_of self (calls w') = runs_of self (calls w) @
           (if instanceCount (handlers w self) + 1 = instancesPerBatch (handlers w self)
            then [CtxObj c] else [])"
    by simp_all
qed

lemma handler_config_add_instance:
  "handler_config ((add_instance ops h c l xTL yTL xBL yBL xTR yTR xBR yBR lightX lightY)
      \<lparr>instanceCount := k\<rparr>) = handler_config h"
  by (simp add: handler_config_def add_instance_def write_floats_length)

lemma batch_keeps_invariant:
  assumes "instanceCount (handlers w self) < instancesPerBatch (handlers w self)"
  shows "instanceCount (handlers (state_of
            (batch ops self c l xTL yTL xBL yBL xTR yTR xBR yBR lightX lightY w)) self)
          < instancesPerBatch (handlers w self) \<and>
         handler_config (handlers (state_of
            (batch ops self c l xTL yTL xBL yBL xTR yTR xBR yBR lightX lightY w)) self)
          = handler_config (handlers w self)"
proof (cases "batch ops self c l xTL yTL xBL yBL xTR yTR xBR yBR lightX lightY w")
  case (Threw e w')
  then have "\<not> returned (batch ops self c l xTL yTL xBL yBL xTR yTR xBR yBR lightX lightY w)"
    by simp
  from batch_threw_state [OF this] assms show ?thesis by simp
next
  case (Ok w')
  from batch_ok_state(1) [OF Ok] assms show ?thesis
    by (auto simp: Ok handler_config_add_instance)
qed

lemma run_keeps_invariant:
  assumes "instanceCount (handlers w self) < instancesPerBatch (handlers w self)"
  shows "instanceCount (handlers (state_of (run self c w)) self)
          < instancesPerBatch (handlers w self) \<and>
         handler_config (handlers (state_of (run self c w)) self)
          = handler_config (handlers w self)"
  using run_self [of self c w] assms by (auto simp: handler_config_def)

lemma do_call_keeps_invariant:
  assumes "instanceCount (handlers w self) < instancesPerBatch (handlers w self)"
  shows "instanceCount (handlers (state_of (do_call ops self k w)) self)
          < instancesPerBatch (handlers w self) \<and>
         handler_config (handlers (state_of (do_call ops self k w)) self)
          = handler_config (handlers w self)"
  using assms by (cases k) (simp_all add: batch_keeps_invariant run_keeps_invariant)

lemma do_calls_keep_invariant:
  assumes "instanceCount (handlers w self) < instancesPerBatch (handlers w self)"
  shows "instanceCount (handlers (state_of (do_calls ops self ks w)) self)
          < instancesPerBatch (handlers w self) \<and>
         handler_config (handlers (state_of (do_calls ops self ks w)) self)
          = handler_config (handlers w self)"
  using assms
proof (induction ks arbitrary: w)
  case Nil
  then show ?case by simp
next
  case (Cons k ks)
  note step = do_call_keeps_invariant [OF Cons.prems, of ops k]
  show ?case
  proof (cases "do_call ops self k w")
    case (Threw e w')
    with step show ?thesis by simp
  next
    case (Ok w')
    with step have inv: "instanceCount (handlers w' self) < instancesPerBatch (handlers w self)"
      and cfg: "handler_config (handlers w' self) = handler_config (handlers w self)"
      by simp_all
    from cfg have ipb: "instancesPerBatch (handlers w' self) = instancesPerBatch (handlers w self)"
      by (simp add: handler_config_def)
    from Cons.IH [of w'] inv ipb cfg show ?thesis by (simp add: Ok)
  qed
qed

lemma do_calls_accumulate:
  assumes "list_all is_batch_call ks"
    and "instanceCount (handlers w self) + length ks < instancesPerBatch (handlers w self)"
    and "instanceCount (handlers w self) = 0 \<longrightarrow> flushable w"
  shows "\<exists>w'. do_calls ops self ks w = Ok w' \<and>
           instanceCount (handlers w' self) = instanceCount (handlers w self) + length ks \<and>
           handler_config (handlers w' self) = handler_config (handlers w self) \<and>
           draws_of self (gpu w') = draws_of self (gpu w) \<and>
           runs_of self (calls w') = runs_of self (calls w)"
  using assms
proof (induction ks arbitrary: w)
  case Nil
  then show ?case by simp
next
  case (Cons k ks)
  from Cons.prems(1) obtain c l xTL yTL xBL yBL xTR yTR xBR yBR lightX lightY where
    k: "k = BatchCall c l xTL yTL xBL yBL xTR yTR xBR yBR lightX lightY"
    by (cases k) simp_all
  have "returned (batch ops self c l xTL yTL xBL yBL xTR yTR xBR yBR lightX lightY w)"
    using Cons.prems(3) by (rule batch_returns)
  then obtain w1 where w1: "batch ops self c l xTL yTL xBL yBL xTR yTR xBR yBR lightX lightY w = Ok w1"
    by (cases "batch ops self c l xTL yTL xBL yBL xTR yTR xBR yBR lightX lightY w") simp_all
  have nf: "instanceCount (handlers w self) + 1 \<noteq> instancesPerBatch (handlers w self)"
    using Cons.prems(2) by simp
  note st = batch_ok_state [OF w1]
  have h1: "handlers w1 self =
      (add_instance ops (handlers w self) c l xTL yTL xBL yBL xTR yTR xBR yBR lightX lightY)
        \<lparr>instanceCount := instanceCount (handlers w self) + 1\<rparr>"
    using st(1) nf by simp
  have cnt: "instanceCount (handlers w1 self) = instanceCount (handlers w self) + 1"
    by (simp add: h1)
  have cfg: "handler_config (handlers w1 self) = handler_config (handlers w self)"
    by (simp only: h1 handler_config_add_instance)
  then have ipb: "instancesPerBatch (handlers w1 self) = instancesPerBatch (handlers w self)"
    by (simp add: handler_config_def)
  have d1: "draws_of self (gpu w1) = draws_of self (gpu w)" using st(2) nf by simp
  have r1: "runs_of self (calls w1) = runs_of self (calls w)" using st(3) nf by simp
  have "\<exists>w'. do_calls ops self ks w1 = Ok w' \<and>
           instanceCount (handlers w' self) = instanceCount (handlers w1 self) + length ks \<and>
           handler_config (handlers w' self) = handler_config (handlers w1 self) \<and>
           draws_of self (gpu w') = draws_of self (gpu w1) \<and>
           runs_of self (calls w') = runs_of self (calls w1)"
  proof (rule Cons.IH)
    show "list_all is_batch_call ks" using Cons.prems(1) by simp
    show "instanceCount (handlers w1 self) + length ks < instancesPerBatch (handlers w1 self)"
      using Cons.prems(2) by (simp add: cnt ipb)
    show "instanceCount (handlers w1 self) = 0 \<longrightarrow> flushable w1" by (simp add: cnt)
  qed
  then show ?case by (auto simp: k w1 cnt cfg d1 r1)
qed

text \<open>
  Claim C2. Take a handler with room for at least one instance and an empty batch, in a
  state where the batch pending in the manager, if any, can be flushed. Then
  \<^item> \<open>N\<close> \<open>batch\<close> calls with \<open>N < instancesPerBatch\<close> return with \<open>instanceCount = N\<close>,
    and the handler has drawn nothing and its \<open>run\<close> has not been called;
  \<^item> after every sequence of \<open>batch\<close> and \<open>run\<close> calls, also one that ends in a throw,
    \<open>instanceCount \<le> instancesPerBatch\<close>, and \<open>instancesPerBatch\<close> is what it was;
  \<^item> the \<open>batch\<close> call that fills the batch returns with \<open>instanceCount = 0\<close> and has
    issued the one draw call for \<open>instancesPerBatch\<close> instances, both when the batch
    was filled from empty by \<open>batch\<close> calls alone and after any sequence of calls;
  \<^item> with forty floats per instance and a buffer of \<open>instancesPerBatch * 40\<close> floats,
    every \<open>batch\<close> call that returns, after any sequence of calls, has written its forty
    floats inside the buffer, at the slot of the instance.
\<close>

theorem batch_never_overfills:
  assumes "instanceCount (handlers w self) = 0" and "flushable w"
    and "0 < instancesPerBatch (handlers w self)"
  shows
    "(\<forall>ks. list_all is_batch_call ks \<and> length ks < instancesPerBatch (handlers w self) \<longrightarrow>
        (\<exists>w'. do_calls ops self ks w = Ok w' \<and>
           instanceCount (handlers w' self) = length ks \<and>
           draws_of self (gpu w') = draws_of self (gpu w) \<and>
           runs_of self (calls w') = runs_of self (calls w))) \<and>
     (\<forall>ks. instanceCount (handlers (state_of (do_calls ops self ks w)) self)
             \<le> instancesPerBatch (handlers (state_of (do_calls ops self ks w)) self) \<and>
           instancesPerBatch (handlers (state_of (do_calls ops self ks w)) self)
             = instancesPerBatch (handlers w self)) \<and>
     (\<forall>ks c l xTL yTL xBL yBL xTR yTR xBR yBR lightX lightY.
        list_all is_batch_call ks \<and> length ks + 1 = instancesPerBatch (handlers w self) \<longrightarrow>
        (\<exists>w' w''. do_calls ops self ks w = Ok w' \<and>
           batch ops self c l xTL yTL xBL yBL xTR yTR xBR yBR lightX lightY w' = Ok w'' \<and>
           instanceCount (handlers w'' self) = 0 \<and>
           draws_of self (gpu w'') = draws_of self (gpu w) @
             [(c, instancesPerBatch (handlers w self) * indicesPerInstance (handlers w self))])) \<and>
     (\<forall>ks c l xTL yTL xBL yBL xTR yTR xBR yBR lightX lightY w''.
        batch ops self c l xTL yTL xBL yBL xTR yTR xBR yBR lightX lightY
          (state_of (do_calls ops self ks w)) = Ok w'' \<and>
        instanceCount (handlers (state_of (do_calls ops self ks w)) self) + 1
          = instancesPerBatch (handlers w self) \<longrightarrow>
        instanceCount (handlers w'' self) = 0 \<and>
        draws_of self (gpu w'') = draws_of self (gpu (state_of (do_calls ops self ks w))) @
          [(c, instancesPerBatch (handlers w self) * indicesPerInstance (handlers w self))]) \<and>
     (\<forall>ks c l xTL yTL xBL yBL xTR yTR xBR yBR lightX lightY w''.
        floatsPerInstance (handlers w self) = 40 \<and>
        length (viewF32 (handlers w self)) = instancesPerBatch (handlers w self) * 40 \<and>
        batch ops self c l xTL yTL xBL yBL xTR yTR xBR yBR lightX lightY
          (state_of (do_calls ops self ks w)) = Ok w'' \<longrightarrow>
        length (viewF32 (handlers w'' self)) = length (viewF32 (handlers w self)) \<and>
        take 40 (drop (40 * instanceCount (handlers (state_of (do_calls ops self ks w)) self))
          (viewF32 (handlers w'' self))) =
          map (fround ops)
            (light_vertices ops c l xTL yTL xBL yBL xTR yTR xBR yBR lightX lightY))"
proof -
  have inv0: "instanceCount (handlers w self) < instancesPerBatch (handlers w self)"
    using assms(1,3) by simp
  have fl: "instanceCount (handlers w self) = 0 \<longrightarrow> flushable w" using assms(2) by simp
  have a: "\<exists>w'. do_calls ops self ks w = Ok w' \<and>
           instanceCount (handlers w' self) = length ks \<and>
           draws_of self (gpu w') = draws_of self (gpu w) \<and>
           runs_of self (calls w') = runs_of self (calls w)"
    if "list_all is_batch_call ks" "length ks < instancesPerBatch (handlers w self)" for ks
    using do_calls_accumulate [OF that(1) _ fl, of ops] that(2) assms(1) by auto
  have b: "instanceCount (handlers (state_of (do_calls ops self ks w)) self)
             \<le> instancesPerBatch (handlers (state_of (do_calls ops self ks w)) self) \<and>
           instancesPerBatch (handlers (state_of (do_calls ops self ks w)) self)
             = instancesPerBatch (handlers w self)" for ks
    using do_calls_keep_invariant [OF inv0, of ops ks] by (simp add: handler_config_def)
  have d: "instanceCount (handlers w'' self) = 0 \<and>
        draws_of self (gpu w'') = draws_of self (gpu (state_of (do_calls ops self ks w))) @
          [(c, instancesPerBatch (handlers w self) * indicesPerInstance (handlers w self))]"
    if "batch ops self c l xTL yTL xBL yBL xTR yTR xBR yBR lightX lightY
          (state_of (do_calls ops self ks w)) = Ok w''"
      "instanceCount (handlers (state_of (do_calls ops self ks w)) self) + 1
          = instancesPerBatch (handlers w self)"
    for ks c l xTL yTL xBL yBL xTR yTR xBR yBR lightX lightY w''
  proof -
    let ?w' = "state_of (do_calls ops self ks w)"
    have cfg: "handler_config (handlers ?w' self) = handler_config (handlers w self)"
      using do_calls_keep_invariant [OF inv0, of ops ks] by simp
    then have full: "instanceCount (handlers ?w' self) + 1 = instancesPerBatch (handlers ?w' self)"
      and ipi: "indicesPerInstance (handlers ?w' self) = indicesPerInstance (handlers w self)"
      and ipb: "instancesPerBatch (handlers ?w' self) = instancesPerBatch (handlers w self)"
      using that(2) by (simp_all add: handler_config_def)
    from batch_ok_state(1,2) [OF that(1)] full show ?thesis by (simp add: ipi ipb)
  qed
  have c: "\<exists>w' w''. do_calls ops self ks w = Ok w' \<and>
           batch ops self c l xTL yTL xBL yBL xTR yTR xBR yBR lightX lightY w' = Ok w'' \<and>
           instanceCount (handlers w'' self) = 0 \<and>
           draws_of self (gpu w'') = draws_of self (gpu w) @
             [(c, instancesPerBatch (handlers w self) * indicesPerInstance (handlers w self))]"
    if "list_all is_batch_call ks" "length ks + 1 = instancesPerBatch (handlers w self)"
    for ks c l xTL yTL xBL yBL xTR yTR xBR yBR lightX lightY
  proof -
    from that(2) have "length ks < instancesPerBatch (handlers w self)" by simp
    from a [OF that(1) this] obtain w' where w': "do_calls ops self ks w = Ok w'"
      "instanceCount (handlers w' self) = length ks"
      "draws_of self (gpu w') = draws_of self (gpu w)" by blast
    have st: "state_of (do_calls ops self ks w) = w'" by (simp add: w'(1))
    have "instanceCount (handlers w' self) = 0 \<longrightarrow> flushable w'"
    proof
      assume "instanceCount (handlers w' self) = 0"
      then have "ks = []" using w'(2) by simp
      then have "w' = w" using w'(1) by simp
      then show "flushable w'" using assms(2) by simp
    qed
    then have "returned (batch ops self c l xTL yTL xBL yBL xTR yTR xBR yBR lightX lightY w')"
      by (rule batch_returns)
    then obtain w'' where w'': "batch ops self c l xTL yTL xBL yBL xTR yTR xBR yBR lightX lightY w' = Ok w''"
      by (cases "batch ops self c l xTL yTL xBL yBL xTR yTR xBR yBR lightX lightY w'") simp_all
    have "instanceCount (handlers w'' self) = 0 \<and>
        draws_of self (gpu w'') = draws_of self (gpu (state_of (do_calls ops self ks w))) @
          [(c, instancesPerBatch (handlers w self) * indicesPerInstance (handlers w self))]"
      using d [of c l xTL yTL xBL yBL xTR yTR xBR yBR lightX lightY ks w''] w'' w'(2) that(2)
      by (simp add: st)
    then show ?thesis using w' w'' st by auto
  qed
  have e: "length (viewF32 (handlers w'' self)) = length (viewF32 (handlers w self)) \<and>
        take 40 (drop (40 * instanceCount (handlers (state_of (do_calls ops self ks w)) self))
          (viewF32 (handlers w'' self))) =
          map (fround ops)
            (light_vertices ops c l xTL yTL xBL yBL xTR yTR xBR yBR lightX lightY)"
    if "floatsPerInstance (handlers w self) = 40"
      "length (viewF32 (handlers w self)) = instancesPerBatch (handlers w self) * 40"
      "batch ops self c l xTL yTL xBL yBL xTR yTR xBR yBR lightX lightY
          (state_of (do_calls ops self ks w)) = Ok w''"
    for ks c l xTL yTL xBL yBL xTR yTR xBR yBR lightX lightY w''
  proof -
    let ?w' = "state_of (do_calls ops self ks w)"
    let ?h = "handlers ?w' self"
    have inv: "instanceCount ?h < instancesPerBatch (handlers w self)"
      and cfg: "handler_config ?h = handler_config (handlers w self)"
      using do_calls_keep_invariant [OF inv0, of ops ks] by simp_all
    from cfg have fpi: "floatsPerInstance ?h = 40"
      and ipb: "instancesPerBatch ?h = instancesPerBatch (handlers w self)"
      and len: "length (viewF32 ?h) = instancesPerBatch ?h * 40"
      using that(1,2) by (simp_all add: handler_config_def)
    have inv': "instanceCount ?h < instancesPerBatch ?h" using inv ipb by simp
    have view: "viewF32 (handlers w'' self) =
        viewF32 (add_instance ops ?h c l xTL yTL xBL yBL xTR yTR xBR yBR lightX lightY)"
      using batch_ok_state(1) [OF that(3)] by simp
    show ?thesis
      using add_instance_view [OF fpi inv' len, of ops c l xTL yTL xBL yBL xTR yTR xBR yBR lightX lightY]
        len ipb that(2)
      by (simp add: view add_instance_fields)
  qed
  have A: "\<forall>ks. list_all is_batch_call ks \<and> length ks < instancesPerBatch (handlers w self) \<longrightarrow>
        (\<exists>w'. do_calls ops self ks w = Ok w' \<and>
           instanceCount (handlers w' self) = length ks \<and>
           draws_of self (gpu w') = draws_of self (gpu w) \<and>
           runs_of self (calls w') = runs_of self (calls w))"
    using a by blast
  have B: "\<forall>ks. instanceCount (handlers (state_of (do_calls ops self ks w)) self)
             \<le> instancesPerBatch (handlers (state_of (do_calls ops self ks w)) self) \<and>
           instancesPerBatch (handlers (state_of (do_calls ops self ks w)) self)
             = instancesPerBatch (handlers w self)"
    using b by blast
  have C: "\<forall>ks c l xTL yTL xBL yBL xTR yTR xBR yBR lightX lightY.
        list_all is_batch_call ks \<and> length ks + 1 = instancesPerBatch (handlers w self) \<longrightarrow>
        (\<exists>w' w''. do_calls ops self ks w = Ok w' \<and>
           batch ops self c l xTL yTL xBL yBL xTR yTR xBR yBR lightX lightY w' = Ok w'' \<and>
           instanceCount (handlers w'' self) = 0 \<and>
           draws_of self (gpu w'') = draws_of self (gpu w) @
             [(c, instancesPerBatch (handlers w self) * indicesPerInstance (handlers w self))])"
    using c by (intro allI impI) (elim conjE)
  have D: "\<forall>ks c l xTL yTL xBL yBL xTR yTR xBR yBR lightX lightY w''.
        batch ops self c l xTL yTL xBL yBL xTR yTR xBR yBR lightX lightY
          (state_of (do_calls ops self ks w)) = Ok w'' \<and>
        instanceCount (handlers (state_of (do_calls ops self ks w)) self) + 1
          = instancesPerBatch (handlers w self) \<longrightarrow>
        instanceCount (handlers w'' self) = 0 \<and>
        draws_of self (gpu w'') = draws_of self (gpu (state_of (do_calls ops self ks w))) @
          [(c, instancesPerBatch (handlers w self) * indicesPerInstance (handlers w self))]"
    using d by (intro allI impI) (elim conjE)
  have E: "\<forall>ks c l xTL yTL xBL yBL xTR yTR xBR yBR lightX lightY w''.
        floatsPerInstance (handlers w self) = 40 \<and>
        length (viewF32 (handlers w self)) = instancesPerBatch (handlers w self) * 40 \<and>
        batch ops self c l xTL yTL xBL yBL xTR yTR xBR yBR lightX lightY
          (state_of (do_calls ops self ks w)) = Ok w'' \<longrightarrow>
        length (viewF32 (handlers w'' self)) = length (viewF32 (handlers w self)) \<and>
        take 40 (drop (40 * instanceCount (handlers (state_of (do_calls ops self ks w)) self))
          (viewF32 (handlers w'' self))) =
          map (fround ops)
            (light_vertices ops c l xTL yTL xBL yBL xTR yTR xBR yBR lightX lightY)"
    using e by (intro allI impI) (elim conjE)
  show ?thesis
    by (rule conjI [OF A conjI [OF B conjI [OF C conjI [OF D E]]]])
qed

lemma new_world_fields:
  "currentBatchNode (mgr (new_world mt n z)) = None"
  "currentBatchDrawingContext (mgr (new_world mt n z)) = CtxNull"
  "handlers (new_world mt n z) r = new_handler n z"
  "calls (new_world mt n z) = []"
  "gpu (new_world mt n z) = []"
  by (simp_all add: new_world_def initialize_def)

lemma new_handler_fields:
  "instanceCount (new_handler n z) = 0"
  "instancesPerBatch (new_handler n z) = n"
  "floatsPerInstance (new_handler n z) = 40"
  "indicesPerInstance (new_handler n z) = 6"
  "bytesPerInstance (new_handler n z) = 160"
  "length (viewF32 (new_handler n z)) = n * 40"
  by (simp_all add: new_handler_def)

lemma new_world_flushable: "flushable (new_world mt n z)"
  by (simp add: flushable_def new_world_fields)

theorem run_flushes_once_witness:
  "0 < instanceCount (handlers
         ((new_world (Fin 16) 2 (0::int))
            \<lparr>handlers := (\<lambda>r. (new_handler 2 0)\<lparr>instanceCount := 1\<rparr>)\<rparr>) (Given 0)) \<and>
   (\<exists>w'. run (Given 0) (CtxObj (context_of_width 800))
           ((new_world (Fin 16) 2 (0::int))
              \<lparr>handlers := (\<lambda>r. (new_handler 2 0)\<lparr>instanceCount := 1\<rparr>)\<rparr>) = Ok w' \<and>
         draws_of (Given 0) (gpu w') = [(context_of_width 800, 6)] \<and>
         instanceCount (handlers w' (Given 0)) = 0 \<and>
         (\<exists>w''. run (Given 0) CtxNull w' = Ok w'' \<and> gpu w'' = gpu w'))"
proof -
  let ?w = "(new_world (Fin 16) 2 (0::int))
              \<lparr>handlers := (\<lambda>r. (new_handler 2 0)\<lparr>instanceCount := 1\<rparr>)\<rparr>"
  have pos: "0 < instanceCount (handlers ?w (Given 0))" by simp
  from run_flushes_once [of ?w "Given 0" CtxNull "context_of_width 800"] pos
  have "\<exists>w'. run (Given 0) (CtxObj (context_of_width 800)) ?w = Ok w' \<and>
         draws_of (Given 0) (gpu w') = draws_of (Given 0) (gpu ?w) @
           [(context_of_width 800,
             instanceCount (handlers ?w (Given 0)) * indicesPerInstance (handlers ?w (Given 0)))] \<and>
         instanceCount (handlers w' (Given 0)) = 0 \<and>
         (\<exists>w''. run (Given 0) CtxNull w' = Ok w'' \<and> gpu w'' = gpu w')"
    by blast
  then show ?thesis using pos by (simp add: new_world_fields new_handler_fields)
qed

theorem setCurrentBatchNode_flushes_previous_witness:
  "Given 0 \<noteq> Given 1 \<and>
   (\<exists>w1. setCurrentBatchNode (Some (Given 0)) (CtxObj (context_of_width 800))
            (new_world (Fin 16) 2 (0::int)) = Ok w1 \<and>
      currentBatchDrawingContext (mgr w1) = CtxObj (context_of_width 800) \<and>
      calls (state_of (setCurrentBatchNode (Some (Given 1)) (CtxObj (context_of_width 400)) w1))
        = [(Given 0, CtxObj (context_of_width 800))] \<and>
      setCurrentBatchNode (Some (Given 0)) CtxUndefined w1 = Ok w1)"
proof -
  let ?w = "new_world (Fin 16) 2 (0::int)"
  let ?w1 = "?w\<lparr>mgr := (mgr ?w)\<lparr>currentBatchNode := Some (Given 0),
                 currentBatchDrawingContext := CtxObj (context_of_width 800)\<rparr>\<rparr>"
  have ne: "Given 0 \<noteq> Given 1" by simp
  have first: "setCurrentBatchNode (Some (Given 0)) (CtxObj (context_of_width 800)) ?w = Ok ?w1"
    by (rule setCurrentBatchNode_from_none) (simp_all add: new_world_fields)
  note t = setCurrentBatchNode_flushes_previous [OF ne first,
      of "CtxObj (context_of_width 400)" CtxUndefined]
  have c0: "calls ?w1 = []" by (simp add: new_world_fields)
  have st0: "currentBatchNode (mgr ?w) \<noteq> Some (Given 0)" by (simp add: new_world_fields)
  note stored = t [THEN conjunct2, THEN conjunct1]
  note callsB = t [THEN conjunct2, THEN conjunct2, THEN conjunct2, THEN conjunct1]
  note same = t [THEN conjunct2, THEN conjunct2, THEN conjunct2, THEN conjunct2,
      THEN conjunct2, THEN conjunct1]
  have s1: "currentBatchDrawingContext (mgr ?w1) = CtxObj (context_of_width 800)"
    using stored st0 by (simp only: if_False)
  have "calls (state_of (setCurrentBatchNode (Some (Given 1)) (CtxObj (context_of_width 400)) ?w1))
        = [(Given 0, CtxObj (context_of_width 800))]"
    using callsB by (simp only: s1 c0 append_Nil)
  with s1 same have "currentBatchDrawingContext (mgr ?w1) = CtxObj (context_of_width 800) \<and>
      calls (state_of (setCurrentBatchNode (Some (Given 1)) (CtxObj (context_of_width 400)) ?w1))
        = [(Given 0, CtxObj (context_of_width 800))] \<and>
      setCurrentBatchNode (Some (Given 0)) CtxUndefined ?w1 = Ok ?w1"
    by (intro conjI)
  with first ne show ?thesis by blast
qed

text \<open>
  Claim C3, as the code has it. While \<open>N\<close> is the current batch node,
  \<open>setCurrentBatchNode(N, C2)\<close> changes nothing, whatever \<open>C2\<close> is: \<open>N.run\<close> is not called
  and the stored drawing context stays. A flush of \<open>N\<close> with the stored context is forced
  by a request for any other node or for \<open>null\<close>, after which the requested node and its
  context are installed.
\<close>

theorem setCurrentBatchNode_same_node_no_flush:
  assumes "currentBatchNode (mgr w) = Some N"
  shows "setCurrentBatchNode (Some N) C2 w = Ok w \<and>
         (\<forall>node. node \<noteq> Some N \<longrightarrow>
            calls (state_of (setCurrentBatchNode node C2 w)) =
              calls w @ [(N, currentBatchDrawingContext (mgr w))] \<and>
            (\<forall>w'. setCurrentBatchNode node C2 w = Ok w' \<longrightarrow>
               currentBatchNode (mgr w') = node \<and>
               currentBatchDrawingContext (mgr w') = (if node \<noteq> None then C2 else CtxNull)))"
proof -
  have a: "setCurrentBatchNode (Some N) C2 w = Ok w"
    using assms by (rule setCurrentBatchNode_same)
  have b: "calls (state_of (setCurrentBatchNode node C2 w)) =
      calls w @ [(N, currentBatchDrawingContext (mgr w))]" if "node \<noteq> Some N" for node
    using setCurrentBatchNode_switch_calls [OF assms that] .
  have c: "currentBatchNode (mgr w') = node \<and>
      currentBatchDrawingContext (mgr w') = (if node \<noteq> None then C2 else CtxNull)"
    if "node \<noteq> Some N" "setCurrentBatchNode node C2 w = Ok w'" for node w'
    using setCurrentBatchNode_installs [OF that(2)] that(1) assms by simp
  show ?thesis using a b c by blast
qed

lemma first_batch:
  "batch int_ops (Given 0) (context_of_width 800) white_light 0 0 0 0 0 0 0 0 0 0
     (new_world (Fin 16) 2 0) =
   Ok ((new_world (Fin 16) 2 0)
        \<lparr>mgr := (mgr (new_world (Fin 16) 2 0))
            \<lparr>currentBatchNode := Some (Given 0),
              currentBatchDrawingContext := CtxObj (context_of_width 800)\<rparr>,
         handlers := (handlers (new_world (Fin 16) 2 0))(Given 0 :=
            add_instance int_ops (new_handler 2 0) (context_of_width 800) white_light
              0 0 0 0 0 0 0 0 0 0)\<rparr>)"
proof -
  let ?w = "new_world (Fin 16) 2 (0::int)"
  let ?w1 = "?w\<lparr>mgr := (mgr ?w)\<lparr>currentBatchNode := Some (Given 0),
                 currentBatchDrawingContext := CtxObj (context_of_width 800)\<rparr>\<rparr>"
  have "setCurrentBatchNode (Some (Given 0)) (CtxObj (context_of_width 800)) ?w = Ok ?w1"
    by (rule setCurrentBatchNode_from_none) (simp_all add: new_world_fields)
  then have pre: "(if instanceCount (handlers ?w (Given 0)) = 0
      then setCurrentBatchNode (Some (Given 0)) (CtxObj (context_of_width 800)) ?w
      else Ok ?w) = Ok ?w1"
    by (simp add: new_world_fields new_handler_fields)
  have nf: "instanceCount (handlers ?w1 (Given 0)) + 1 \<noteq> instancesPerBatch (handlers ?w1 (Given 0))"
    by (simp add: new_world_fields new_handler_fields)
  show ?thesis
    using batch_partial [OF pre nf, of int_ops white_light 0 0 0 0 0 0 0 0 0 0]
    by (simp add: new_world_fields)
qed

text \<open>
  The handler is current with one light pending under a drawing context 800 wide. After
  \<open>setCurrentBatchNode\<close> for the same handler with a context 400 wide, which returns the
  state as it was, a request for another node calls the handler's \<open>run\<close> once, with the
  context 800 wide and not with the one 400 wide, and the draw call is made under it.
\<close>

theorem setCurrentBatchNode_runs_with_stored_context:
  "Given 0 \<noteq> Given 2 \<and>
   setCurrentBatchNode (Some (Given 0)) (CtxObj (context_of_width 400)) mid_batch = Ok mid_batch \<and>
   calls (state_of (setCurrentBatchNode (Some (Given 2)) (CtxObj (context_of_width 1024)) mid_batch))
     = [(Given 0, CtxObj (context_of_width 800))] \<and>
   draws_of (Given 0)
     (gpu (state_of (setCurrentBatchNode (Some (Given 2)) (CtxObj (context_of_width 1024)) mid_batch)))
     = [(context_of_width 800, 6)] \<and>
   CtxObj (context_of_width 800) \<noteq> CtxObj (context_of_width 400)"
proof -
  have cur: "currentBatchNode (mgr mid_batch) = Some (Given 0)"
    by (simp add: mid_batch_def first_batch)
  have ctx: "currentBatchDrawingContext (mgr mid_batch) = CtxObj (context_of_width 800)"
    by (simp add: mid_batch_def first_batch)
  have c0: "calls mid_batch = []" and g0: "gpu mid_batch = []"
    by (simp_all add: mid_batch_def first_batch new_world_fields)
  have h: "instanceCount (handlers mid_batch (Given 0)) = 1"
    "indicesPerInstance (handlers mid_batch (Given 0)) = 6"
    by (simp_all add: mid_batch_def first_batch add_instance_fields new_handler_fields)
  have ne: "Some (Given 2) \<noteq> Some (Given 0)" by simp
  have same: "setCurrentBatchNode (Some (Given 0)) (CtxObj (context_of_width 400)) mid_batch
      = Ok mid_batch"
    using cur by (rule setCurrentBatchNode_same)
  have cs: "calls (state_of (setCurrentBatchNode (Some (Given 2)) (CtxObj (context_of_width 1024))
      mid_batch)) = [(Given 0, CtxObj (context_of_width 800))]"
    using setCurrentBatchNode_switch_calls [OF cur ne, of "CtxObj (context_of_width 1024)"]
    by (simp add: ctx c0)
  have pos: "0 < instanceCount (handlers mid_batch (Given 0))" by (simp add: h)
  have ds: "draws_of (Given 0) (gpu (state_of (setCurrentBatchNode (Some (Given 2))
      (CtxObj (context_of_width 1024)) mid_batch))) = [(context_of_width 800, 6)]"
    by (simp add: setCurrentBatchNode_switch [OF cur ne] ctx run_pending [OF pos] g0
        draws_of_flush_events h)
  have "context_of_width 800 \<noteq> context_of_width 400"
    by (simp add: context_of_width_def)
  then show ?thesis using same cs ds by simp
qed

text \<open>
  With one light pending under a drawing context 800 wide, a request for the same node
  under a context 400 wide returns the state as it was: nothing has been flushed, and
  the stored context is still the first one.
\<close>

theorem context_switch_does_not_flush:
  "instanceCount (handlers mid_batch (Given 0)) = 1 \<and>
   currentBatchNode (mgr mid_batch) = Some (Given 0) \<and>
   currentBatchDrawingContext (mgr mid_batch) = CtxObj (context_of_width 800) \<and>
   context_of_width 400 \<noteq> context_of_width 800 \<and>
   setCurrentBatchNode (Some (Given 0)) (CtxObj (context_of_width 400)) mid_batch = Ok mid_batch \<and>
   calls mid_batch = [] \<and>
   gpu mid_batch = []"
proof -
  have cur: "currentBatchNode (mgr mid_batch) = Some (Given 0)"
    by (simp add: mid_batch_def first_batch)
  have "setCurrentBatchNode (Some (Given 0)) (CtxObj (context_of_width 400)) mid_batch = Ok mid_batch"
    using cur by (rule setCurrentBatchNode_same)
  moreover have "instanceCount (handlers mid_batch (Given 0)) = 1"
    by (simp add: mid_batch_def first_batch add_instance_fields new_handler_fields)
  moreover have "currentBatchDrawingContext (mgr mid_batch) = CtxObj (context_of_width 800)"
    by (simp add: mid_batch_def first_batch)
  moreover have "context_of_width 400 \<noteq> context_of_width 800"
    by (simp add: context_of_width_def)
  moreover have "calls mid_batch = []" "gpu mid_batch = []"
    by (simp_all add: mid_batch_def first_batch new_world_fields)
  ultimately show ?thesis using cur by simp
qed

theorem setCurrentBatchNode_same_node_no_flush_witness:
  "currentBatchNode (mgr mid_batch) = Some (Given 0) \<and>
   setCurrentBatchNode (Some (Given 0)) CtxUndefined mid_batch = Ok mid_batch \<and>
   calls (state_of (setCurrentBatchNode None CtxUndefined mid_batch)) =
     [(Given 0, CtxObj (context_of_width 800))]"
proof -
  have cur: "currentBatchNode (mgr mid_batch) = Some (Given 0)"
    by (simp add: mid_batch_def first_batch)
  have ctx: "currentBatchDrawingContext (mgr mid_batch) = CtxObj (context_of_width 800)"
    by (simp add: mid_batch_def first_batch)
  have c0: "calls mid_batch = []"
    by (simp add: mid_batch_def first_batch new_world_fields)
  note t = setCurrentBatchNode_same_node_no_flush [OF cur, of CtxUndefined]
  have "None \<noteq> Some (Given 0)" by simp
  with t have "calls (state_of (setCurrentBatchNode None CtxUndefined mid_batch)) =
     calls mid_batch @ [(Given 0, currentBatchDrawingContext (mgr mid_batch))]"
    by blast
  then show ?thesis using cur t by (simp add: ctx c0)
qed

theorem batch_never_overfills_witness:
  "instanceCount (handlers (new_world (Fin 16) 2 (0::int)) (Given 0)) = 0 \<and>
   flushable (new_world (Fin 16) 2 (0::int)) \<and>
   0 < instancesPerBatch (handlers (new_world (Fin 16) 2 (0::int)) (Given 0)) \<and>
   (\<exists>w'. do_calls int_ops (Given 0)
           [BatchCall (context_of_width 800) white_light 0 0 0 0 0 0 0 0 0 0]
           (new_world (Fin 16) 2 0) = Ok w' \<and>
         instanceCount (handlers w' (Given 0)) = 1 \<and>
         draws_of (Given 0) (gpu w') = []) \<and>
   (\<exists>w' w''. do_calls int_ops (Given 0)
           [BatchCall (context_of_width 800) white_light 0 0 0 0 0 0 0 0 0 0]
           (new_world (Fin 16) 2 0) = Ok w' \<and>
         batch int_ops (Given 0) (context_of_width 800) white_light 0 0 0 0 0 0 0 0 0 0 w' = Ok w'' \<and>
         instanceCount (handlers w'' (Given 0)) = 0 \<and>
         draws_of (Given 0) (gpu w'') = [(context_of_width 800, 12)])"
proof -
  let ?w = "new_world (Fin 16) 2 (0::int)"
  let ?k = "BatchCall (context_of_width 800) white_light 0 0 0 0 0 0 0 0 0 0"
  have h1: "instanceCount (handlers ?w (Given 0)) = 0"
    by (simp add: new_world_fields new_handler_fields)
  have h2: "flushable ?w" by (rule new_world_flushable)
  have h3: "0 < instancesPerBatch (handlers ?w (Given 0))"
    by (simp add: new_world_fields new_handler_fields)
  note t = batch_never_overfills [OF h1 h2 h3, of int_ops]
  have k: "list_all is_batch_call [?k]" by simp
  have l1: "length [?k] < instancesPerBatch (handlers ?w (Given 0))"
    by (simp add: new_world_fields new_handler_fields)
  have l2: "length [?k] + 1 = instancesPerBatch (handlers ?w (Given 0))"
    by (simp add: new_world_fields new_handler_fields)
  from t [THEN conjunct1, THEN spec, of "[?k]"] k l1
  have a: "\<exists>w'. do_calls int_ops (Given 0) [?k] ?w = Ok w' \<and>
      instanceCount (handlers w' (Given 0)) = length [?k] \<and>
      draws_of (Given 0) (gpu w') = draws_of (Given 0) (gpu ?w) \<and>
      runs_of (Given 0) (calls w') = runs_of (Given 0) (calls ?w)"
    by blast
  have c: "\<exists>w' w''. do_calls int_ops (Given 0) [?k] ?w = Ok w' \<and>
      batch int_ops (Given 0) (context_of_width 800) white_light 0 0 0 0 0 0 0 0 0 0 w' = Ok w'' \<and>
      instanceCount (handlers w'' (Given 0)) = 0 \<and>
      draws_of (Given 0) (gpu w'') = draws_of (Given 0) (gpu ?w) @
        [(context_of_width 800,
          instancesPerBatch (handlers ?w (Given 0)) * indicesPerInstance (handlers ?w (Given 0)))]"
    using t [THEN conjunct2, THEN conjunct2, THEN conjunct1, THEN spec, of "[?k]"] k l2
    by blast
  have a': "\<exists>w'. do_calls int_ops (Given 0) [?k] ?w = Ok w' \<and>
         instanceCount (handlers w' (Given 0)) = 1 \<and>
         draws_of (Given 0) (gpu w') = []"
  proof -
    from a obtain w' where w': "do_calls int_ops (Given 0) [?k] ?w = Ok w'"
      "instanceCount (handlers w' (Given 0)) = length [?k]"
      "draws_of (Given 0) (gpu w') = draws_of (Given 0) (gpu ?w)"
      by blast
    from w'(2,3) have "instanceCount (handlers w' (Given 0)) = 1"
      "draws_of (Given 0) (gpu w') = []"
      by (simp_all add: new_world_fields)
    with w'(1) show ?thesis by blast
  qed
  have c': "\<exists>w' w''. do_calls int_ops (Given 0) [?k] ?w = Ok w' \<and>
      batch int_ops (Given 0) (context_of_width 800) white_light 0 0 0 0 0 0 0 0 0 0 w' = Ok w'' \<and>
      instanceCount (handlers w'' (Given 0)) = 0 \<and>
      draws_of (Given 0) (gpu w'') = [(context_of_width 800, 12)]"
  proof -
    from c obtain w' w'' where w': "do_calls int_ops (Given 0) [?k] ?w = Ok w'"
      "batch int_ops (Given 0) (context_of_width 800) white_light 0 0 0 0 0 0 0 0 0 0 w' = Ok w''"
      "instanceCount (handlers w'' (Given 0)) = 0"
      "draws_of (Given 0) (gpu w'') = draws_of (Given 0) (gpu ?w) @
        [(context_of_width 800,
          instancesPerBatch (handlers ?w (Given 0)) * indicesPerInstance (handlers ?w (Given 0)))]"
      by blast
    from w'(4) have "draws_of (Given 0) (gpu w'') = [(context_of_width 800, 12)]"
      by (simp add: new_world_fields new_handler_fields)
    with w'(1,2,3) show ?thesis by blast
  qed
  show ?thesis using h1 h2 h3 a' c' by (intro conjI)
qed

section \<open>Properties of the tile submitter\<close>


lemma SubmitterTile_run_returns:
  assumes "customRenderNodes gameObject (batchHandler env) = Some h \<or>
           defaultRenderNodes gameObject (batchHandler env) = Some h"
  shows "\<exists>h' b. SubmitterTile_run ops env drawingContext gameObject parentMatrix element
             texturerNode transformerNode tinterNode normalMap normalMapRotation = Inr (h', b)"
  using assms
  by (auto simp: SubmitterTile_run_def Let_def split: option.splits quad.splits)

text \<open>
  With the colour \<open>0xffffff\<close> the alpha would show in the tint: a transparent camera
  gives \<open>0x00ffffff\<close>, an opaque one \<open>0xffffffff\<close>.
\<close>

lemma getTint_rgb_white:
  "getTint int_submitter_env 0xffffff 0 = 0x00ffffff \<and>
   getTint int_submitter_env 0xffffff 1 = 0xffffffff"
  by (simp add: getTint_def getTintAppendFloatAlpha_def int_submitter_env_def)


end
